theory Spec2Isabelle
  imports Main "HOL-Library.Sublist" "HOL-Library.AList"
begin

section \<open>Python values and exceptions\<close>

text \<open>
  An exception that \<open>except Exception\<close> catches: the name of its class and the text
  \<open>str(ex)\<close> gives for it. What that clause does not catch (\<open>KeyboardInterrupt\<close>,
  \<open>SystemExit\<close>) is not modelled.
\<close>

datatype exn = Exn (exn_class: string) (exn_str: string)

text \<open>
  \<open>"{}".format(x)\<close> for an argument read with \<open>os.environ.get\<close>: either a string,
  or \<open>None\<close>, which formats as the text None.
\<close>

definition py_format :: "string option \<Rightarrow> string" where
  "py_format x = (case x of None \<Rightarrow> ''None'' | Some s \<Rightarrow> s)"

text \<open>Truthiness of such an argument: \<open>None\<close> and the empty string are false.\<close>

definition truthy :: "string option \<Rightarrow> bool" where
  "truthy x = (case x of None \<Rightarrow> False | Some s \<Rightarrow> s \<noteq> [])"

section \<open>Uploading the artifacts\<close>

text \<open>
  \<open>os.path.join(root, file_name)\<close> on a POSIX system: an absolute second component
  replaces the first, an empty first component or one ending in a slash takes no
  separator.
\<close>

definition os_path_join :: "string \<Rightarrow> string \<Rightarrow> string" where
  "os_path_join a b =
     (if b \<noteq> [] \<and> hd b = CHR ''/'' then b
      else if a = [] \<or> last a = CHR ''/'' then a @ b
      else a @ ''/'' @ b)"

text \<open>
  What \<open>s3_client.upload_file\<close> can do: return, raise \<open>NoCredentialsError\<close>, or raise
  another exception.
\<close>

datatype upload_outcome = Uploaded | NoCredentials | UploadRaises exn

text \<open>
  The libraries the upload uses, which are not part of the repository: \<open>boto3.client\<close>,
  the client's \<open>upload_file\<close> acting on the state \<open>'s\<close> of the object store, and
  \<open>os.walk\<close>, whose result is the list of \<open>(root, dirs, files)\<close> triples.
\<close>

record ('c, 's) upload_env =
  boto3_client :: "string \<Rightarrow> string \<Rightarrow> string \<Rightarrow> exn + 'c"
  upload_file :: "'c \<Rightarrow> string \<Rightarrow> string \<Rightarrow> string \<Rightarrow> 's \<Rightarrow> upload_outcome \<times> 's"
  os_walk :: "string \<Rightarrow> (string \<times> string list \<times> string list) list"

text \<open>What the upload does to the outside: log lines, printed lines, upload calls.\<close>

datatype effect =
    OutLog string
  | OutPrint string
  | OutUpload string string string

record 's upload_state =
  store :: 's
  outputs :: "effect list"

definition out :: "effect \<Rightarrow> 's upload_state \<Rightarrow> 's upload_state" where
  "out e st = st\<lparr>outputs := outputs st @ [e]\<rparr>"

definition get_s3_client ::
  "('c, 's) upload_env \<Rightarrow> string \<Rightarrow> string \<Rightarrow> string \<Rightarrow> exn + 'c" where
  "get_s3_client E s3_endpoint_url aws_access_key_id aws_secret_access_key =
     boto3_client E aws_access_key_id aws_secret_access_key s3_endpoint_url"

definition upload_to_aws ::
  "('c, 's) upload_env \<Rightarrow> 'c \<Rightarrow> string \<Rightarrow> string \<Rightarrow> string \<Rightarrow> 's upload_state
     \<Rightarrow> (exn + bool) \<times> 's upload_state" where
  "upload_to_aws E s3_client local_file bucket s3_file st =
     (let st1 = out (OutUpload local_file bucket s3_file) st in
      case upload_file E s3_client local_file bucket s3_file (store st1) of
        (Uploaded, s') \<Rightarrow> (Inr True, out (OutPrint ''Upload Successful'') (st1\<lparr>store := s'\<rparr>))
      | (NoCredentials, s') \<Rightarrow>
          (Inr False, out (OutPrint ''Credentials not available'') (st1\<lparr>store := s'\<rparr>))
      | (UploadRaises e, s') \<Rightarrow> (Inl e, st1\<lparr>store := s'\<rparr>))"

text \<open>The renaming both upload loops apply to a file name.\<close>

definition object_name :: "string \<Rightarrow> string" where
  "object_name file_name =
     (if file_name = ''kubeconfig'' then ''kubeconfig-noingress'' else file_name)"

text \<open>The inner loop of \<open>upload_to_s3\<close>, over the files of one directory.\<close>

fun upload_files ::
  "('c, 's) upload_env \<Rightarrow> 'c \<Rightarrow> string \<Rightarrow> string option \<Rightarrow> string \<Rightarrow> string list
     \<Rightarrow> 's upload_state \<Rightarrow> (exn + unit) \<times> 's upload_state" where
  "upload_files E s3_client bucket pfx root [] st = (Inr (), st)"
| "upload_files E s3_client bucket pfx root (file_name # files) st =
     (let st1 = out (OutLog (''Uploading file: '' @ file_name)) st;
          file_path = os_path_join root file_name;
          s3_file_name = py_format pfx @ ''/'' @ object_name file_name;
          st2 = out (OutPrint s3_file_name) st1
      in case upload_to_aws E s3_client file_path bucket s3_file_name st2 of
           (Inl e, st3) \<Rightarrow> (Inl e, st3)
         | (Inr _, st3) \<Rightarrow> upload_files E s3_client bucket pfx root files st3)"

text \<open>The outer loop, over the triples of \<open>os.walk\<close>.\<close>

fun upload_walk ::
  "('c, 's) upload_env \<Rightarrow> 'c \<Rightarrow> string \<Rightarrow> string option
     \<Rightarrow> (string \<times> string list \<times> string list) list
     \<Rightarrow> 's upload_state \<Rightarrow> (exn + unit) \<times> 's upload_state" where
  "upload_walk E s3_client bucket pfx [] st = (Inr (), st)"
| "upload_walk E s3_client bucket pfx ((root, dirs, files) # walk) st =
     (case upload_files E s3_client bucket pfx root files st of
        (Inl e, st1) \<Rightarrow> (Inl e, st1)
      | (Inr _, st1) \<Rightarrow> upload_walk E s3_client bucket pfx walk st1)"

definition upload_to_s3 ::
  "('c, 's) upload_env \<Rightarrow> string \<Rightarrow> string \<Rightarrow> string \<Rightarrow> string \<Rightarrow> string
     \<Rightarrow> string option \<Rightarrow> 's upload_state \<Rightarrow> (exn + unit) \<times> 's upload_state" where
  "upload_to_s3 E s3_endpoint_url bucket aws_access_key_id aws_secret_access_key
       install_dir cluster_id st =
     (case get_s3_client E s3_endpoint_url aws_access_key_id aws_secret_access_key of
        Inl e \<Rightarrow> (Inl e, st)
      | Inr s3_client \<Rightarrow> upload_walk E s3_client bucket cluster_id (os_walk E install_dir) st)"

text \<open>\<open>debug_print_upload_to_s3\<close>: the lines it prints, in order.\<close>

definition debug_print_upload_to_s3 :: "('c, 's) upload_env \<Rightarrow> string \<Rightarrow> string list" where
  "debug_print_upload_to_s3 E install_dir =
     concat (map (\<lambda>(root, dirs, files).
       map (\<lambda>file_name.
         ''Uploading file '' @ os_path_join root file_name @ '' as object ''
           @ ''dummy_cluster_id'' @ ''/'' @ object_name file_name) files)
       (os_walk E install_dir))"

text \<open>The files a walk visits, each with its directory, in the order of the walk.\<close>

definition walked_files ::
  "(string \<times> string list \<times> string list) list \<Rightarrow> (string \<times> string) list" where
  "walked_files walk = concat (map (\<lambda>(root, dirs, files). map (Pair root) files) walk)"

text \<open>The upload calls among a list of outputs: local file, bucket, object key.\<close>

fun upload_calls :: "effect list \<Rightarrow> (string \<times> string \<times> string) list" where
  "upload_calls [] = []"
| "upload_calls (OutUpload l b k # es) = (l, b, k) # upload_calls es"
| "upload_calls (_ # es) = upload_calls es"

text \<open>The upload call the claim expects for one walked file.\<close>

definition expected_upload ::
  "string \<Rightarrow> string option \<Rightarrow> string \<times> string \<Rightarrow> string \<times> string \<times> string" where
  "expected_upload bucket cluster_id rf =
     (os_path_join (fst rf) (snd rf), bucket,
      (if snd rf = ''kubeconfig'' then py_format cluster_id @ ''/kubeconfig-noingress''
       else py_format cluster_id @ ''/'' @ snd rf))"

section \<open>The decoded document\<close>

text \<open>
  What \<open>json.load\<close> returns: \<open>None\<close>, a bool, an int, a float (kept as the text
  \<open>json.dump\<close> writes for it), a str, a list, or a dict. A dict keeps its keys in
  insertion order, so it is an association list.
\<close>

datatype json =
    JNull
  | JBool bool
  | JInt int
  | JFloat string
  | JStr string
  | JArr "json list"
  | JObj "(string \<times> json) list"

fun py_type_name :: "json \<Rightarrow> string" where
  "py_type_name JNull = ''NoneType''"
| "py_type_name (JBool _) = ''bool''"
| "py_type_name (JInt _) = ''int''"
| "py_type_name (JFloat _) = ''float''"
| "py_type_name (JStr _) = ''str''"
| "py_type_name (JArr _) = ''list''"
| "py_type_name (JObj _) = ''dict''"

definition squote :: "string \<Rightarrow> string" where
  "squote s = [CHR 0x27] @ s @ [CHR 0x27]"

text \<open>
  \<open>v[key]\<close> for a string key: a dict looks the key up and raises \<open>KeyError\<close> when it is
  missing; every other value raises \<open>TypeError\<close> (the messages are CPython 3's).
\<close>

fun py_getitem :: "json \<Rightarrow> string \<Rightarrow> exn + json" where
  "py_getitem (JObj kvs) key =
     (case map_of kvs key of
        None \<Rightarrow> Inl (Exn ''KeyError'' (squote key))
      | Some v \<Rightarrow> Inr v)"
| "py_getitem (JArr xs) key =
     Inl (Exn ''TypeError'' ''list indices must be integers or slices, not str'')"
| "py_getitem (JStr s) key =
     Inl (Exn ''TypeError'' (''string indices must be integers, not '' @ squote ''str''))"
| "py_getitem v key =
     Inl (Exn ''TypeError'' (squote (py_type_name v) @ '' object is not subscriptable''))"

text \<open>
  \<open>for x in v\<close>: a list gives its elements, a dict its keys, a str its characters; the
  other values are not iterable.
\<close>

fun py_iter :: "json \<Rightarrow> exn + json list" where
  "py_iter (JArr xs) = Inr xs"
| "py_iter (JObj kvs) = Inr (map (\<lambda>kv. JStr (fst kv)) kvs)"
| "py_iter (JStr s) = Inr (map (\<lambda>c. JStr [c]) s)"
| "py_iter v = Inl (Exn ''TypeError'' (squote (py_type_name v) @ '' object is not iterable''))"

text \<open>\<open>d[key] = v\<close> on a dict: an existing key keeps its place, a new one goes last.\<close>

fun py_setitem :: "json \<Rightarrow> string \<Rightarrow> json \<Rightarrow> json" where
  "py_setitem (JObj kvs) key v = JObj (AList.update key v kvs)"
| "py_setitem d key v = d"

subsection \<open>The text \<open>json.dump\<close> writes\<close>

text \<open>
  \<open>json.dump\<close> with its default options: items separated by a comma and a space, keys
  from values by a colon and a space, strings escaped to ASCII.
\<close>

definition digit_char :: "nat \<Rightarrow> char" where
  "digit_char n = char_of (48 + n)"

fun show_nat :: "nat \<Rightarrow> string" where
  "show_nat n = (if n < 10 then [digit_char n] else show_nat (n div 10) @ [digit_char (n mod 10)])"

declare show_nat.simps [simp del]

definition show_int :: "int \<Rightarrow> string" where
  "show_int i = (if i < 0 then CHR ''-'' # show_nat (nat (- i)) else show_nat (nat i))"

definition hex_digit :: "nat \<Rightarrow> char" where
  "hex_digit n = (if n < 10 then char_of (48 + n) else char_of (87 + n))"

definition escape_char :: "char \<Rightarrow> string" where
  "escape_char c =
     (let n = (of_char c :: nat) in
      if n = 0x22 then [CHR 0x5C, CHR 0x22]
      else if n = 0x5C then [CHR 0x5C, CHR 0x5C]
      else if n = 0x08 then [CHR 0x5C, CHR ''b'']
      else if n = 0x0C then [CHR 0x5C, CHR ''f'']
      else if n = 0x0A then [CHR 0x5C, CHR ''n'']
      else if n = 0x0D then [CHR 0x5C, CHR ''r'']
      else if n = 0x09 then [CHR 0x5C, CHR ''t'']
      else if n < 0x20 \<or> 0x7E < n then
        [CHR 0x5C, CHR ''u'', CHR ''0'', CHR ''0'', hex_digit (n div 16), hex_digit (n mod 16)]
      else [c])"

definition encode_str :: "string \<Rightarrow> string" where
  "encode_str s = [CHR 0x22] @ concat (map escape_char s) @ [CHR 0x22]"

fun join_with :: "string \<Rightarrow> string list \<Rightarrow> string" where
  "join_with sep [] = []"
| "join_with sep [x] = x"
| "join_with sep (x # y # ys) = x @ sep @ join_with sep (y # ys)"

fun json_dumps :: "json \<Rightarrow> string" where
  "json_dumps JNull = ''null''"
| "json_dumps (JBool b) = (if b then ''true'' else ''false'')"
| "json_dumps (JInt i) = show_int i"
| "json_dumps (JFloat r) = r"
| "json_dumps (JStr s) = encode_str s"
| "json_dumps (JArr xs) = ''['' @ join_with '', '' (map json_dumps xs) @ '']''"
| "json_dumps (JObj kvs) =
     ''{'' @ join_with '', '' (map (\<lambda>kv. encode_str (fst kv) @ '': '' @ json_dumps (snd kv)) kvs)
       @ ''}''"

section \<open>The world of \<open>update_bmh_files\<close>\<close>

text \<open>
  The modules \<open>utils\<close>, \<open>test_utils\<close> and \<open>bmh_utils\<close> and the decoder \<open>json.load\<close> are
  not in the source file: they are parameters. Each may raise. \<open>update_bmh_cr_file\<close>
  changes its two arguments in place, so it returns the new entry and the new host list.
  None of them is taken to touch the files on disk.
\<close>

record 'h env =
  get_inventory_hosts :: "string \<Rightarrow> string option \<Rightarrow> exn + 'h list"
  get_test_list_hosts :: "string option \<Rightarrow> exn + 'h list"
  is_bmh_cr_file :: "json \<Rightarrow> exn + bool"
  update_bmh_cr_file :: "json \<Rightarrow> 'h list \<Rightarrow> exn + json \<times> 'h list"
  json_load :: "string \<Rightarrow> exn + json"

text \<open>What a run does, in order: the calls it makes and the files it opens and writes.\<close>

datatype event =
    EvGetInventoryHosts string "string option"
  | EvLogInfo string
  | EvGetTestListHosts "string option"
  | EvOpenRead string
  | EvIsBmhCrFile json
  | EvUpdateBmhCrFile json
  | EvOpenWrite string
  | EvWrite string string

text \<open>
  The file system: the text of each file, the files that cannot be opened for writing,
  and the number of characters a file can take before a write fails for lack of space
  (\<open>None\<close>: no limit).
\<close>

record world =
  disk :: "string \<Rightarrow> string option"
  read_only :: "string \<Rightarrow> bool"
  capacity :: "nat option"
  trace :: "event list"

definition emit :: "event \<Rightarrow> world \<Rightarrow> world" where
  "emit e w = w\<lparr>trace := trace w @ [e]\<rparr>"

definition file_not_found :: "string \<Rightarrow> exn" where
  "file_not_found p =
     Exn ''FileNotFoundError'' (''[Errno 2] No such file or directory: '' @ squote p)"

definition permission_denied :: "string \<Rightarrow> exn" where
  "permission_denied p =
     Exn ''PermissionError'' (''[Errno 13] Permission denied: '' @ squote p)"

definition no_space :: exn where
  "no_space = Exn ''OSError'' ''[Errno 28] No space left on device''"

section \<open>\<open>update_bmh_files\<close>\<close>

text \<open>Lines 43 to 47: the host list comes from the inventory or from the test data.\<close>

definition resolve_hosts ::
  "'h env \<Rightarrow> string option \<Rightarrow> string option \<Rightarrow> world \<Rightarrow> (exn + 'h list) \<times> world" where
  "resolve_hosts env cluster_id inventory_endpoint w =
     (case inventory_endpoint of
        Some ep \<Rightarrow>
          if ep \<noteq> [] then
            (get_inventory_hosts env ep cluster_id, emit (EvGetInventoryHosts ep cluster_id) w)
          else
            (get_test_list_hosts env cluster_id,
             emit (EvGetTestListHosts cluster_id)
               (emit (EvLogInfo ''Using test data to get hosts list'') w))
      | None \<Rightarrow>
          (get_test_list_hosts env cluster_id,
           emit (EvGetTestListHosts cluster_id)
             (emit (EvLogInfo ''Using test data to get hosts list'') w)))"

text \<open>
  Lines 53 to 55: the loop over the entries. An entry that is a BMH manifest is
  updated in place, with the host list as the entries before it left it.
\<close>

fun update_entries ::
  "'h env \<Rightarrow> json list \<Rightarrow> 'h list \<Rightarrow> world \<Rightarrow> (exn + json list \<times> 'h list) \<times> world" where
  "update_entries env [] hosts_list w = (Inr ([], hosts_list), w)"
| "update_entries env (file_data # rest) hosts_list w =
     (case py_getitem file_data ''path'' of
        Inl e \<Rightarrow> (Inl e, w)
      | Inr path \<Rightarrow>
          (case is_bmh_cr_file env path of
             Inl e \<Rightarrow> (Inl e, emit (EvIsBmhCrFile path) w)
           | Inr False \<Rightarrow>
               (case update_entries env rest hosts_list (emit (EvIsBmhCrFile path) w) of
                  (Inl e, w') \<Rightarrow> (Inl e, w')
                | (Inr (rest', hosts'), w') \<Rightarrow> (Inr (file_data # rest', hosts'), w'))
           | Inr True \<Rightarrow>
               (case update_bmh_cr_file env file_data hosts_list of
                  Inl e \<Rightarrow>
                    (Inl e, emit (EvUpdateBmhCrFile file_data) (emit (EvIsBmhCrFile path) w))
                | Inr (file_data', hosts1) \<Rightarrow>
                    (case update_entries env rest hosts1
                            (emit (EvUpdateBmhCrFile file_data) (emit (EvIsBmhCrFile path) w)) of
                       (Inl e, w') \<Rightarrow> (Inl e, w')
                     | (Inr (rest', hosts'), w') \<Rightarrow> (Inr (file_data' # rest', hosts'), w')))))"

text \<open>
  The entries are changed inside \<open>data\<close>: after the loop, \<open>data['storage']['files']\<close> is
  the list of the entries as the loop left them. When that value is a dict or a str, the
  loop ran over its keys or characters, which are strings and cannot change.
\<close>

definition store_entries :: "json \<Rightarrow> json \<Rightarrow> json list \<Rightarrow> json" where
  "store_entries data storage_files entries =
     (case storage_files of
        JArr _ \<Rightarrow>
          (case py_getitem data ''storage'' of
             Inr storage \<Rightarrow>
               py_setitem data ''storage'' (py_setitem storage ''files'' (JArr entries))
           | Inl _ \<Rightarrow> data)
      | _ \<Rightarrow> data)"

text \<open>Lines 43 to 55: everything before the file is opened for writing.\<close>

definition load_and_update ::
  "'h env \<Rightarrow> string \<Rightarrow> string option \<Rightarrow> string option \<Rightarrow> world \<Rightarrow> (exn + json) \<times> world" where
  "load_and_update env ignition_file cluster_id inventory_endpoint w =
     (case resolve_hosts env cluster_id inventory_endpoint w of
        (Inl e, w1) \<Rightarrow> (Inl e, w1)
      | (Inr hosts_list, w1) \<Rightarrow>
          (case disk w1 ignition_file of
             None \<Rightarrow> (Inl (file_not_found ignition_file), w1)
           | Some text \<Rightarrow>
               (case json_load env text of
                  Inl e \<Rightarrow> (Inl e, emit (EvOpenRead ignition_file) w1)
                | Inr data \<Rightarrow>
                    (case py_getitem data ''storage'' of
                       Inl e \<Rightarrow> (Inl e, emit (EvOpenRead ignition_file) w1)
                     | Inr storage \<Rightarrow>
                         (case py_getitem storage ''files'' of
                            Inl e \<Rightarrow> (Inl e, emit (EvOpenRead ignition_file) w1)
                          | Inr storage_files \<Rightarrow>
                              (case py_iter storage_files of
                                 Inl e \<Rightarrow> (Inl e, emit (EvOpenRead ignition_file) w1)
                               | Inr entries \<Rightarrow>
                                   (case update_entries env entries hosts_list
                                           (emit (EvOpenRead ignition_file) w1) of
                                      (Inl e, w2) \<Rightarrow> (Inl e, w2)
                                    | (Inr (entries', hosts'), w2) \<Rightarrow>
                                        (Inr (store_entries data storage_files entries'),
                                         w2))))))))"

text \<open>
  Lines 57 and 58: \<open>open(ignition_file, "w")\<close> empties the file, then \<open>json.dump\<close> writes
  the text into it. A write that runs out of space leaves what was written so far.
\<close>

definition persist :: "string \<Rightarrow> json \<Rightarrow> world \<Rightarrow> (exn + unit) \<times> world" where
  "persist ignition_file data w =
     (if read_only w ignition_file then (Inl (permission_denied ignition_file), w)
      else
        let w1 = emit (EvOpenWrite ignition_file) (w\<lparr>disk := (disk w)(ignition_file \<mapsto> [])\<rparr>);
            text = json_dumps data
        in case capacity w1 of
             None \<Rightarrow>
               (Inr (),
                emit (EvWrite ignition_file text)
                  (w1\<lparr>disk := (disk w1)(ignition_file \<mapsto> text)\<rparr>))
           | Some n \<Rightarrow>
               if length text \<le> n then
                 (Inr (),
                  emit (EvWrite ignition_file text)
                    (w1\<lparr>disk := (disk w1)(ignition_file \<mapsto> text)\<rparr>))
               else
                 (Inl no_space,
                  emit (EvWrite ignition_file (take n text))
                    (w1\<lparr>disk := (disk w1)(ignition_file \<mapsto> take n text)\<rparr>)))"

text \<open>Lines 43 to 58: the body of the \<open>try\<close>.\<close>

definition update_bmh_files_body ::
  "'h env \<Rightarrow> string \<Rightarrow> string option \<Rightarrow> string option \<Rightarrow> world \<Rightarrow> (exn + unit) \<times> world" where
  "update_bmh_files_body env ignition_file cluster_id inventory_endpoint w =
     (case load_and_update env ignition_file cluster_id inventory_endpoint w of
        (Inl e, w1) \<Rightarrow> (Inl e, w1)
      | (Inr data, w1) \<Rightarrow> persist ignition_file data w1)"

text \<open>Lines 59 and 60: the handler raises one exception, with the text of the first.\<close>

definition wrap_exn :: "exn \<Rightarrow> exn" where
  "wrap_exn ex =
     Exn ''Exception''
       (''Failed to update BMH CRs in bootstrap ignition, exception: '' @ exn_str ex)"

definition update_bmh_files ::
  "'h env \<Rightarrow> string \<Rightarrow> string option \<Rightarrow> string option \<Rightarrow> world \<Rightarrow> (exn + unit) \<times> world" where
  "update_bmh_files env ignition_file cluster_id inventory_endpoint w =
     (case update_bmh_files_body env ignition_file cluster_id inventory_endpoint w of
        (Inl ex, w') \<Rightarrow> (Inl (wrap_exn ex), w')
      | (Inr u, w') \<Rightarrow> (Inr u, w'))"

section \<open>The document \<open>json.load\<close> reads\<close>

text \<open>
  The decoder of the \<open>json\<close> module, where it returns: white space, the literals,
  numbers, strings with their escapes, arrays and objects. A number with a fraction or
  an exponent is a float; the text \<open>json.dump\<close> writes for the float a token denotes is
  given by the parameter \<open>fr\<close>. A key that occurs again in an object replaces the value
  and keeps the place of the first occurrence, as in a dict. Strings are strings of
  8-bit characters, so an escape for a code point above 255 has no value here.
\<close>

definition is_ws :: "char \<Rightarrow> bool" where
  "is_ws c = (c = CHR '' '' \<or> c = CHR 0x09 \<or> c = CHR 0x0A \<or> c = CHR 0x0D)"

definition skip_ws :: "string \<Rightarrow> string" where
  "skip_ws s = dropWhile is_ws s"

definition is_digit :: "char \<Rightarrow> bool" where
  "is_digit c = (48 \<le> (of_char c :: nat) \<and> (of_char c :: nat) \<le> 57)"

definition digit_val :: "char \<Rightarrow> nat" where
  "digit_val c = of_char c - 48"

definition hex_val :: "char \<Rightarrow> nat option" where
  "hex_val c =
     (let n = (of_char c :: nat) in
      if 48 \<le> n \<and> n \<le> 57 then Some (n - 48)
      else if 97 \<le> n \<and> n \<le> 102 then Some (n - 87)
      else if 65 \<le> n \<and> n \<le> 70 then Some (n - 55)
      else None)"

definition unescape :: "char \<Rightarrow> char option" where
  "unescape e =
     (if e = CHR 0x22 then Some (CHR 0x22)
      else if e = CHR 0x5C then Some (CHR 0x5C)
      else if e = CHR ''/'' then Some (CHR ''/'')
      else if e = CHR ''b'' then Some (CHR 0x08)
      else if e = CHR ''f'' then Some (CHR 0x0C)
      else if e = CHR ''n'' then Some (CHR 0x0A)
      else if e = CHR ''r'' then Some (CHR 0x0D)
      else if e = CHR ''t'' then Some (CHR 0x09)
      else None)"

text \<open>The rest of a string after its opening quote: its characters, and what follows it.\<close>

fun scan_string :: "string \<Rightarrow> (string \<times> string) option" where
  "scan_string [] = None"
| "scan_string (c # t) =
     (if c = CHR 0x22 then Some ([], t)
      else if c = CHR 0x5C then
        (case t of
           [] \<Rightarrow> None
         | e # u \<Rightarrow>
             if e = CHR ''u'' then
               (case u of
                  h1 # h2 # h3 # h4 # v \<Rightarrow>
                    (case (hex_val h1, hex_val h2, hex_val h3, hex_val h4) of
                       (Some a, Some b, Some c', Some d) \<Rightarrow>
                         if ((a * 16 + b) * 16 + c') * 16 + d < 256 then
                           map_option (\<lambda>(s, r). (char_of (((a * 16 + b) * 16 + c') * 16 + d) # s, r))
                             (scan_string v)
                         else None
                     | _ \<Rightarrow> None)
                | _ \<Rightarrow> None)
             else
               (case unescape e of
                  None \<Rightarrow> None
                | Some ch \<Rightarrow> map_option (\<lambda>(s, r). (ch # s, r)) (scan_string u)))
      else if (of_char c :: nat) < 0x20 then None
      else map_option (\<lambda>(s, r). (c # s, r)) (scan_string t))"

text \<open>
  A number, as the decoder's pattern reads it: an optional minus sign, a zero or digits
  that start with a non-zero digit, then a fraction and an exponent when they are
  complete.
\<close>

definition lex_int :: "string \<Rightarrow> (string \<times> string) option" where
  "lex_int s =
     (case s of
        [] \<Rightarrow> None
      | c # t \<Rightarrow>
          if c = CHR ''0'' then Some ([c], t)
          else if is_digit c then Some (takeWhile is_digit s, dropWhile is_digit s)
          else None)"

definition lex_frac :: "string \<Rightarrow> string \<times> string" where
  "lex_frac s =
     (case s of
        [] \<Rightarrow> ([], s)
      | c # t \<Rightarrow>
          if c = CHR ''.'' \<and> takeWhile is_digit t \<noteq> []
          then (c # takeWhile is_digit t, dropWhile is_digit t)
          else ([], s))"

definition lex_sign :: "string \<Rightarrow> string \<times> string" where
  "lex_sign s =
     (case s of
        [] \<Rightarrow> ([], s)
      | c # t \<Rightarrow> if c = CHR ''+'' \<or> c = CHR ''-'' then ([c], t) else ([], s))"

definition lex_exp :: "string \<Rightarrow> string \<times> string" where
  "lex_exp s =
     (case s of
        [] \<Rightarrow> ([], s)
      | c # t \<Rightarrow>
          if (c = CHR ''e'' \<or> c = CHR ''E'') \<and> takeWhile is_digit (snd (lex_sign t)) \<noteq> []
          then (c # fst (lex_sign t) @ takeWhile is_digit (snd (lex_sign t)),
                dropWhile is_digit (snd (lex_sign t)))
          else ([], s))"

definition nat_of_digits :: "string \<Rightarrow> nat" where
  "nat_of_digits ds = foldl (\<lambda>a c. 10 * a + digit_val c) 0 ds"

definition scan_number :: "(string \<Rightarrow> string) \<Rightarrow> string \<Rightarrow> (json \<times> string) option" where
  "scan_number fr s =
     (let neg = (s \<noteq> [] \<and> hd s = CHR ''-'');
          s1 = (if neg then tl s else s)
      in case lex_int s1 of
           None \<Rightarrow> None
         | Some (ip, r1) \<Rightarrow>
             (let fp = fst (lex_frac r1); r2 = snd (lex_frac r1);
                  ex = fst (lex_exp r2); r3 = snd (lex_exp r2)
              in if fp = [] \<and> ex = [] then
                   Some (JInt (if neg then - int (nat_of_digits ip) else int (nat_of_digits ip)), r3)
                 else Some (JFloat (fr ((if neg then ''-'' else []) @ ip @ fp @ ex)), r3)))"

text \<open>The dict made of the pairs of an object, read from left to right.\<close>

definition dict_of :: "(string \<times> json) list \<Rightarrow> (string \<times> json) list" where
  "dict_of kvs = foldl (\<lambda>acc kv. AList.update (fst kv) (snd kv) acc) [] kvs"

text \<open>
  A value at the head of the text, and what follows it. The counter bounds the depth
  and the number of items; the length of the text is always enough, since every step
  that uses it up has read a character.
\<close>

fun parse_value :: "(string \<Rightarrow> string) \<Rightarrow> nat \<Rightarrow> string \<Rightarrow> (json \<times> string) option"
  and parse_elems :: "(string \<Rightarrow> string) \<Rightarrow> nat \<Rightarrow> string \<Rightarrow> (json list \<times> string) option"
  and parse_members ::
    "(string \<Rightarrow> string) \<Rightarrow> nat \<Rightarrow> string \<Rightarrow> ((string \<times> json) list \<times> string) option" where
  "parse_value fr n [] = None"
| "parse_value fr n (c # t) =
     (if c = CHR 0x22 then map_option (\<lambda>(x, r). (JStr x, r)) (scan_string t)
      else if c = CHR ''{'' then
        (case skip_ws t of
           [] \<Rightarrow> None
         | c' # r \<Rightarrow>
             if c' = CHR ''}'' then Some (JObj [], r)
             else
               (case n of
                  0 \<Rightarrow> None
                | Suc m \<Rightarrow>
                    map_option (\<lambda>(kvs, r'). (JObj (dict_of kvs), r'))
                      (parse_members fr m (c' # r))))
      else if c = CHR ''['' then
        (case skip_ws t of
           [] \<Rightarrow> None
         | c' # r \<Rightarrow>
             if c' = CHR '']'' then Some (JArr [], r)
             else
               (case n of
                  0 \<Rightarrow> None
                | Suc m \<Rightarrow>
                    map_option (\<lambda>(xs, r'). (JArr xs, r')) (parse_elems fr m (c' # r))))
      else if prefix ''null'' (c # t) then Some (JNull, drop 4 (c # t))
      else if prefix ''true'' (c # t) then Some (JBool True, drop 4 (c # t))
      else if prefix ''false'' (c # t) then Some (JBool False, drop 5 (c # t))
      else
        (case scan_number fr (c # t) of
           Some vr \<Rightarrow> Some vr
         | None \<Rightarrow>
             if prefix ''NaN'' (c # t) then Some (JFloat ''NaN'', drop 3 (c # t))
             else if prefix ''Infinity'' (c # t) then Some (JFloat ''Infinity'', drop 8 (c # t))
             else if prefix ''-Infinity'' (c # t) then Some (JFloat ''-Infinity'', drop 9 (c # t))
             else None))"
| "parse_elems fr n s =
     (case parse_value fr n s of
        None \<Rightarrow> None
      | Some (v, r) \<Rightarrow>
          (case skip_ws r of
             [] \<Rightarrow> None
           | c # r' \<Rightarrow>
               if c = CHR '']'' then Some ([v], r')
               else if c = CHR '','' then
                 (case n of
                    0 \<Rightarrow> None
                  | Suc m \<Rightarrow>
                      map_option (\<lambda>(vs, r''). (v # vs, r'')) (parse_elems fr m (skip_ws r')))
               else None))"
| "parse_members fr n s =
     (case s of
        [] \<Rightarrow> None
      | q # t \<Rightarrow>
          if q = CHR 0x22 then
            (case scan_string t of
               None \<Rightarrow> None
             | Some (k, r) \<Rightarrow>
                 (case skip_ws r of
                    [] \<Rightarrow> None
                  | c # r1 \<Rightarrow>
                      if c = CHR '':'' then
                        (case parse_value fr n (skip_ws r1) of
                           None \<Rightarrow> None
                         | Some (v, r2) \<Rightarrow>
                             (case skip_ws r2 of
                                [] \<Rightarrow> None
                              | c' # r3 \<Rightarrow>
                                  if c' = CHR ''}'' then Some ([(k, v)], r3)
                                  else if c' = CHR '','' then
                                    (case n of
                                       0 \<Rightarrow> None
                                     | Suc m \<Rightarrow>
                                         map_option (\<lambda>(kvs, r4). ((k, v) # kvs, r4))
                                           (parse_members fr m (skip_ws r3)))
                                  else None))
                      else None))
          else None)"

definition json_loads :: "(string \<Rightarrow> string) \<Rightarrow> string \<Rightarrow> json option" where
  "json_loads fr s =
     (case parse_value fr (length s) (skip_ws s) of
        None \<Rightarrow> None
      | Some (v, r) \<Rightarrow> if skip_ws r = [] then Some v else None)"

text \<open>
  The documents the decoder returns. The text of a float is one of the three names
  \<open>json.dump\<close> writes for the floats that are not numbers, or a number with a fraction
  or an exponent that reads back as the same float (\<open>fr\<close> leaves it as it is). The keys
  of a dict are distinct.
\<close>

definition is_float_token :: "string \<Rightarrow> bool" where
  "is_float_token r =
     (case scan_number (\<lambda>t. t) r of
        Some (JFloat t, []) \<Rightarrow> True
      | _ \<Rightarrow> False)"

definition float_text :: "(string \<Rightarrow> string) \<Rightarrow> string \<Rightarrow> bool" where
  "float_text fr r =
     (r = ''NaN'' \<or> r = ''Infinity'' \<or> r = ''-Infinity'' \<or> (is_float_token r \<and> fr r = r))"

definition float_repr_ok :: "(string \<Rightarrow> string) \<Rightarrow> bool" where
  "float_repr_ok fr = (\<forall>t. float_text fr (fr t))"

fun wf_json :: "(string \<Rightarrow> string) \<Rightarrow> json \<Rightarrow> bool" where
  "wf_json fr (JFloat r) = float_text fr r"
| "wf_json fr (JArr xs) = (\<forall>x \<in> set xs. wf_json fr x)"
| "wf_json fr (JObj kvs) = (distinct (map fst kvs) \<and> (\<forall>kv \<in> set kvs. wf_json fr (snd kv)))"
| "wf_json fr v = True"

text \<open>What may follow a value inside the text \<open>json.dump\<close> writes, or at its end.\<close>

definition sep_start :: "string \<Rightarrow> bool" where
  "sep_start s = (s = [] \<or> hd s = CHR '','' \<or> hd s = CHR '']'' \<or> hd s = CHR ''}'')"

section \<open>The manifest mutator of the specification\<close>

text \<open>
  Modelled from the spec: how a manifest is decoded from an entry's content, changed for
  a host and encoded again is in \<open>bmh_utils\<close>, which is not in the source file, and the
  specification leaves the formats open. The three steps are parameters.
\<close>

record ('h, 'm) manifest_codec =
  decode_manifest :: "json \<Rightarrow> exn + 'm"
  apply_host :: "'h \<Rightarrow> 'm \<Rightarrow> 'm"
  encode_manifest :: "json \<Rightarrow> 'm \<Rightarrow> exn + json"

text \<open>
  Modelled from the spec: the correlation error of the specification (section 7),
  raised when there are fewer host records than qualifying manifests.
\<close>

definition correlation_error :: exn where
  "correlation_error = Exn ''CorrelationError'' ''fewer host records than BMH manifests''"

text \<open>
  Modelled from the spec: \<open>bmh_utils.update_bmh_cr_file\<close> is not in the source file.
  The specification (4.2) gives its steps: decode the entry's content into a manifest,
  select the host record, overwrite the manifest's hardware and network fields,
  re-encode the manifest in the envelope the entry had, and change nothing of the entry
  but its content. The host is selected by position: the k-th manifest of the document
  takes the k-th host of the list, and a manifest for which no host is left fails with a
  correlation error. The function is called with the entry and the host list only, so
  the position is kept by consuming the list: each manifest takes the first host that
  the manifests before it have left.
\<close>

definition spec_update_bmh_cr_file ::
  "('h, 'm) manifest_codec \<Rightarrow> json \<Rightarrow> 'h list \<Rightarrow> exn + json \<times> 'h list" where
  "spec_update_bmh_cr_file mc entry hosts =
     (case py_getitem entry ''contents'' of
        Inl e \<Rightarrow> Inl e
      | Inr contents \<Rightarrow>
          (case decode_manifest mc contents of
             Inl e \<Rightarrow> Inl e
           | Inr manifest \<Rightarrow>
               (case hosts of
                  [] \<Rightarrow> Inl correlation_error
                | host # rest \<Rightarrow>
                    (case encode_manifest mc contents (apply_host mc host manifest) of
                       Inl e \<Rightarrow> Inl e
                     | Inr contents' \<Rightarrow>
                         Inr (py_setitem entry ''contents'' contents', rest)))))"

section \<open>Notions the properties are stated with\<close>

text \<open>An entry qualifies when it has a path and the predicate holds of it.\<close>

definition qualifies :: "'h env \<Rightarrow> json \<Rightarrow> bool" where
  "qualifies env file_data =
     (case py_getitem file_data ''path'' of
        Inl e \<Rightarrow> False
      | Inr path \<Rightarrow> is_bmh_cr_file env path = Inr True)"

text \<open>The events of the three kinds the properties speak of.\<close>

fun is_retrieval :: "event \<Rightarrow> bool" where
  "is_retrieval (EvGetInventoryHosts ep c) = True"
| "is_retrieval (EvGetTestListHosts c) = True"
| "is_retrieval e = False"

fun is_write :: "event \<Rightarrow> bool" where
  "is_write (EvOpenWrite p) = True"
| "is_write (EvWrite p t) = True"
| "is_write e = False"

fun is_loop_event :: "event \<Rightarrow> bool" where
  "is_loop_event (EvIsBmhCrFile p) = True"
| "is_loop_event (EvUpdateBmhCrFile fd) = True"
| "is_loop_event e = False"

text \<open>The entries that were handed to \<open>update_bmh_cr_file\<close>, in order.\<close>

fun update_calls :: "event list \<Rightarrow> json list" where
  "update_calls [] = []"
| "update_calls (EvUpdateBmhCrFile fd # es) = fd # update_calls es"
| "update_calls (e # es) = update_calls es"

text \<open>\<open>data['storage']['files']\<close>.\<close>

definition storage_files :: "json \<Rightarrow> exn + json" where
  "storage_files data =
     (case py_getitem data ''storage'' of
        Inl e \<Rightarrow> Inl e
      | Inr storage \<Rightarrow> py_getitem storage ''files'')"

text \<open>
  The events of the host retrieval the specification asks for: a configured endpoint
  is a call of the inventory with the endpoint and the cluster id, no endpoint is a
  call of the test provider, which the code announces in the log.
\<close>

definition retrieval_events :: "string option \<Rightarrow> string option \<Rightarrow> event list" where
  "retrieval_events cluster_id inventory_endpoint =
     (if truthy inventory_endpoint
      then [EvGetInventoryHosts (the inventory_endpoint) cluster_id]
      else [EvLogInfo ''Using test data to get hosts list'', EvGetTestListHosts cluster_id])"

text \<open>
  What the loop did to one entry: a qualifying entry is the result of a call of
  \<open>update_bmh_cr_file\<close> on it that returned; any other entry has a path the predicate
  rejects, and is the entry itself.
\<close>

definition entry_result :: "'h env \<Rightarrow> json \<Rightarrow> json \<Rightarrow> bool" where
  "entry_result env fd fd' =
     (\<exists>p. py_getitem fd ''path'' = Inr p \<and>
        (if qualifies env fd then \<exists>hs hs'. update_bmh_cr_file env fd hs = Inr (fd', hs')
         else is_bmh_cr_file env p = Inr False \<and> fd' = fd))"

text \<open>
  What a write of the document's text leaves in the file: all of it, or as much of it
  as the file system had room for.
\<close>

definition written :: "nat option \<Rightarrow> json \<Rightarrow> string" where
  "written cap data =
     (case cap of None \<Rightarrow> json_dumps data | Some n \<Rightarrow> take n (json_dumps data))"

text \<open>
  An entry on which nothing but the correlation can fail: it has a path, the predicate
  returns for it, and when it qualifies its content decodes to a manifest that can be
  encoded again, whichever host is applied to it.
\<close>

definition well_formed_entry :: "'h env \<Rightarrow> ('h, 'm) manifest_codec \<Rightarrow> json \<Rightarrow> bool" where
  "well_formed_entry env mc fd =
     ((\<exists>p b. py_getitem fd ''path'' = Inr p \<and> is_bmh_cr_file env p = Inr b) \<and>
      (qualifies env fd \<longrightarrow>
         (\<exists>cnt m. py_getitem fd ''contents'' = Inr cnt \<and> decode_manifest mc cnt = Inr m \<and>
            (\<forall>h. \<exists>cnt'. encode_manifest mc cnt (apply_host mc h m) = Inr cnt'))))"

subsection \<open>The correlation rule of the specification\<close>

text \<open>
  Modelled from the spec: the correlation rule (4.2), "each qualifying FileEntry
  corresponds to one ordinal position in the manifest list; the same ordinal position
  is used to index into the host list". The ordinal position of the entry at index \<open>i\<close>
  is the number of qualifying entries before it.
\<close>

definition manifest_ordinal :: "'h env \<Rightarrow> json list \<Rightarrow> nat \<Rightarrow> nat" where
  "manifest_ordinal env entries i = length (filter (qualifies env) (take i entries))"

text \<open>
  Modelled from the spec: what the mutator is to make of an entry and the host record
  correlated with it (4.2): the entry with its content decoded, changed for that host
  and encoded again, and nothing else of it changed. There is no such entry when the
  content is missing or cannot be decoded or encoded.
\<close>

definition injected :: "('h, 'm) manifest_codec \<Rightarrow> json \<Rightarrow> 'h \<Rightarrow> json option" where
  "injected mc entry host =
     (case py_getitem entry ''contents'' of
        Inl e \<Rightarrow> None
      | Inr contents \<Rightarrow>
          (case decode_manifest mc contents of
             Inl e \<Rightarrow> None
           | Inr manifest \<Rightarrow>
               (case encode_manifest mc contents (apply_host mc host manifest) of
                  Inl e \<Rightarrow> None
                | Inr contents' \<Rightarrow> Some (py_setitem entry ''contents'' contents'))))"

section \<open>A concrete document, inventory and file system\<close>

text \<open>
  The scenario of the specification (section 8): a document whose entries are a message
  of the day and BMH manifests with a placeholder MAC address, and an inventory of hosts,
  each known by its MAC address. The example manifest is its MAC address, kept in
  the \<open>source\<close> field of the entry's \<open>contents\<close>.
\<close>

definition motd_entry :: json where
  "motd_entry =
     JObj [(''path'', JStr ''/etc/motd''),
           (''contents'', JObj [(''source'', JStr ''data:,hi'')]),
           (''mode'', JInt 420)]"

definition bmh_entry :: "string \<Rightarrow> string \<Rightarrow> json" where
  "bmh_entry name mac =
     JObj [(''path'', JStr (''/opt/openshift/'' @ name)),
           (''contents'', JObj [(''source'', JStr mac)]),
           (''mode'', JInt 420)]"

definition boot_document :: "json list \<Rightarrow> json" where
  "boot_document entries =
     JObj [(''ignition'', JObj [(''version'', JStr ''3.1.0'')]),
           (''storage'', JObj [(''files'', JArr entries)])]"

definition doc_plain :: json where
  "doc_plain = boot_document [motd_entry]"

definition doc_one :: json where
  "doc_one = boot_document [motd_entry, bmh_entry ''bmh-0.yaml'' ''00:00:00:00:00:00'']"

definition doc_two :: json where
  "doc_two =
     boot_document [bmh_entry ''bmh-0.yaml'' ''00:00:00:00:00:00'', motd_entry,
                    bmh_entry ''bmh-1.yaml'' ''00:00:00:00:00:00'']"

definition example_load :: "string \<Rightarrow> exn + json" where
  "example_load src =
     (case find (\<lambda>d. json_dumps d = src) [doc_plain, doc_one, doc_two] of
        Some d \<Rightarrow> Inr d
      | None \<Rightarrow> Inl (Exn ''JSONDecodeError'' ''Expecting value: line 1 column 1 (char 0)''))"

definition example_is_bmh :: "json \<Rightarrow> exn + bool" where
  "example_is_bmh path =
     (case path of
        JStr s \<Rightarrow> Inr (prefix ''/opt/openshift/'' s)
      | _ \<Rightarrow> Inl (Exn ''AttributeError'' (squote (py_type_name path)
                 @ '' object has no attribute '' @ squote ''find'')))"

definition example_codec :: "(string, string) manifest_codec" where
  "example_codec =
     \<lparr>decode_manifest = (\<lambda>contents.
        case py_getitem contents ''source'' of
          Inl e \<Rightarrow> Inl e
        | Inr (JStr s) \<Rightarrow> Inr s
        | Inr _ \<Rightarrow> Inl (Exn ''DecodeError'' ''manifest is not text'')),
      apply_host = (\<lambda>mac manifest. mac),
      encode_manifest = (\<lambda>contents manifest. Inr (py_setitem contents ''source'' (JStr manifest)))\<rparr>"

definition example_env :: "string list \<Rightarrow> string env" where
  "example_env hosts =
     \<lparr>get_inventory_hosts = (\<lambda>ep c. Inr hosts),
      get_test_list_hosts = (\<lambda>c. Inr hosts),
      is_bmh_cr_file = example_is_bmh,
      update_bmh_cr_file = spec_update_bmh_cr_file example_codec,
      json_load = example_load\<rparr>"

text \<open>
  The same scenario with the decoder of the \<open>json\<close> module. The documents of the
  scenario have no floats; a float is taken to be written as it was read.
\<close>

definition example_repr :: "string \<Rightarrow> string" where
  "example_repr t = (if is_float_token t then t else ''0.0'')"

definition example_decoder :: "string \<Rightarrow> exn + json" where
  "example_decoder src =
     (case json_loads example_repr src of
        Some d \<Rightarrow> Inr d
      | None \<Rightarrow> Inl (Exn ''JSONDecodeError'' ''Expecting value: line 1 column 1 (char 0)''))"

definition decoding_env :: "string list \<Rightarrow> string env" where
  "decoding_env hosts = (example_env hosts)\<lparr>json_load := example_decoder\<rparr>"

text \<open>The document with the message of the day only, as a compact text.\<close>

definition compact_plain :: string where
  "compact_plain =
     [CHR ''{'', CHR 0x22] @ ''ignition'' @ [CHR 0x22, CHR '':'', CHR ''{'', CHR 0x22] @ ''version''
       @ [CHR 0x22, CHR '':'', CHR 0x22] @ ''3.1.0'' @ [CHR 0x22, CHR ''}'', CHR '','', CHR 0x0A, CHR 0x22]
       @ ''storage'' @ [CHR 0x22, CHR '':'', CHR ''{'', CHR 0x22] @ ''files''
       @ [CHR 0x22, CHR '':'', CHR ''['', CHR ''{'', CHR 0x22] @ ''path''
       @ [CHR 0x22, CHR '':'', CHR 0x22] @ ''/etc/motd'' @ [CHR 0x22, CHR '','', CHR 0x22]
       @ ''contents'' @ [CHR 0x22, CHR '':'', CHR ''{'', CHR 0x22] @ ''source''
       @ [CHR 0x22, CHR '':'', CHR 0x22] @ ''data:,hi'' @ [CHR 0x22, CHR ''}'', CHR '','', CHR 0x22]
       @ ''mode'' @ [CHR 0x22, CHR '':''] @ ''420'' @ [CHR ''}'', CHR '']'', CHR ''}'', CHR ''}'', CHR 0x0A]"

definition ign :: string where
  "ign = ''/w/bootstrap.ign''"

definition example_world :: "json \<Rightarrow> nat option \<Rightarrow> world" where
  "example_world doc cap =
     \<lparr>disk = (\<lambda>p. if p = ign then Some (json_dumps doc) else None),
      read_only = (\<lambda>p. False),
      capacity = cap,
      trace = []\<rparr>"

text \<open>A file system whose boot document is a given text, with room for any text.\<close>

definition text_world :: "string \<Rightarrow> world" where
  "text_world src =
     \<lparr>disk = (\<lambda>p. if p = ign then Some src else None),
      read_only = (\<lambda>p. False),
      capacity = None,
      trace = []\<rparr>"

text \<open>
  An installer directory with a kubeconfig in a subdirectory, and an object store that
  counts its objects and has no credentials for the kubeconfig.
\<close>

definition example_upload_env :: "(unit, nat) upload_env" where
  "example_upload_env =
     \<lparr>boto3_client = (\<lambda>key_id secret url. Inr ()),
      upload_file = (\<lambda>cl local_file bucket key n.
        if local_file = ''/w/auth/kubeconfig'' then (NoCredentials, n) else (Uploaded, Suc n)),
      os_walk = (\<lambda>dir.
        [(dir, [''auth''], [''bootstrap.ign'']),
         (os_path_join dir ''auth'', [], [''kubeconfig'', ''kubeadmin-password''])])\<rparr>"

definition empty_store :: "nat upload_state" where
  "empty_store = \<lparr>store = 0, outputs = []\<rparr>"

section \<open>Properties of the upload\<close>

lemma upload_calls_append [simp]:
  "upload_calls (xs @ ys) = upload_calls xs @ upload_calls ys"
  by (induction xs rule: upload_calls.induct) simp_all

lemma upload_to_aws_calls:
  "upload_to_aws E cl l b k st = (r, st') \<Longrightarrow>
     upload_calls (outputs st') = upload_calls (outputs st) @ [(l, b, k)]"
  by (auto simp: upload_to_aws_def out_def Let_def split: prod.splits upload_outcome.splits)

lemma upload_files_calls:
  "upload_files E cl b p root files st = (r, st') \<Longrightarrow>
     (\<exists>dn. prefix dn files \<and> (r = Inr () \<longrightarrow> dn = files) \<and>
        upload_calls (outputs st') =
          upload_calls (outputs st) @ map (\<lambda>f. expected_upload b p (root, f)) dn)"
proof (induction files arbitrary: st)
  case Nil
  then show ?case by simp
next
  case (Cons f files)
  let ?st2 = "out (OutPrint (py_format p @ ''/'' @ object_name f))
                (out (OutLog (''Uploading file: '' @ f)) st)"
  obtain r1 st3 where aws:
    "upload_to_aws E cl (os_path_join root f) b (py_format p @ ''/'' @ object_name f) ?st2
       = (r1, st3)"
    by (cases "upload_to_aws E cl (os_path_join root f) b
                 (py_format p @ ''/'' @ object_name f) ?st2") auto
  have calls3: "upload_calls (outputs st3) =
      upload_calls (outputs st) @ [expected_upload b p (root, f)]"
    using upload_to_aws_calls [OF aws]
    by (simp add: out_def expected_upload_def object_name_def)
  show ?case
  proof (cases r1)
    case (Inl e)
    with Cons.prems aws have "st' = st3" "r = Inl e"
      by (simp_all add: Let_def)
    with calls3 show ?thesis
      by (intro exI [of _ "[f]"]) simp
  next
    case (Inr v)
    with Cons.prems aws have "upload_files E cl b p root files st3 = (r, st')"
      by (simp add: Let_def)
    from Cons.IH [OF this] obtain dn where
      d: "prefix dn files" "r = Inr () \<longrightarrow> dn = files"
         "upload_calls (outputs st') =
            upload_calls (outputs st3) @ map (\<lambda>f. expected_upload b p (root, f)) dn"
      by blast
    with calls3 show ?thesis
      by (intro exI [of _ "f # dn"]) simp
  qed
qed

lemma upload_walk_calls:
  "upload_walk E cl b p walk st = (r, st') \<Longrightarrow>
     (\<exists>dn. prefix dn (walked_files walk) \<and> (r = Inr () \<longrightarrow> dn = walked_files walk) \<and>
        upload_calls (outputs st') =
          upload_calls (outputs st) @ map (expected_upload b p) dn)"
proof (induction walk arbitrary: st)
  case Nil
  then show ?case by (simp add: walked_files_def)
next
  case (Cons t walk)
  obtain root dirs files where t: "t = (root, dirs, files)"
    by (cases t) auto
  obtain r1 st1 where f: "upload_files E cl b p root files st = (r1, st1)"
    by (cases "upload_files E cl b p root files st") auto
  from upload_files_calls [OF f] obtain d1 where
    d1: "prefix d1 files" "r1 = Inr () \<longrightarrow> d1 = files"
        "upload_calls (outputs st1) =
           upload_calls (outputs st) @ map (\<lambda>f. expected_upload b p (root, f)) d1"
    by blast
  have wf: "walked_files (t # walk) = map (Pair root) files @ walked_files walk"
    by (simp add: walked_files_def t)
  show ?case
  proof (cases r1)
    case (Inl e)
    with Cons.prems f t have "st' = st1" "r = Inl e"
      by simp_all
    with d1 show ?thesis
      by (intro exI [of _ "map (Pair root) d1"])
         (auto simp: wf comp_def prefix_def)
  next
    case (Inr v)
    with Cons.prems f t have "upload_walk E cl b p walk st1 = (r, st')"
      by simp
    from Cons.IH [OF this] obtain d2 where
      d2: "prefix d2 (walked_files walk)" "r = Inr () \<longrightarrow> d2 = walked_files walk"
          "upload_calls (outputs st') = upload_calls (outputs st1) @ map (expected_upload b p) d2"
      by blast
    from Inr d1 have "d1 = files" by (cases v) simp
    with d1 d2 show ?thesis
      by (intro exI [of _ "map (Pair root) files @ d2"])
         (auto simp: wf comp_def)
  qed
qed

lemma upload_to_aws_no_raise:
  assumes "\<And>e. fst (upload_file E cl l b k (store st)) \<noteq> UploadRaises e"
  shows "\<exists>v st'. upload_to_aws E cl l b k st = (Inr v, st')"
proof (cases "upload_file E cl l b k (store st)")
  case (Pair oc s')
  with assms show ?thesis
    by (cases oc) (auto simp: upload_to_aws_def out_def Let_def)
qed

lemma upload_files_no_raise:
  assumes "\<And>l b k s e. fst (upload_file E cl l b k s) \<noteq> UploadRaises e"
  shows "fst (upload_files E cl b p root files st) = Inr ()"
proof (induction files arbitrary: st)
  case Nil
  show ?case by simp
next
  case (Cons f files)
  let ?st2 = "out (OutPrint (py_format p @ ''/'' @ object_name f))
                (out (OutLog (''Uploading file: '' @ f)) st)"
  from upload_to_aws_no_raise [of E cl _ _ _ ?st2] assms obtain v st3 where
    "upload_to_aws E cl (os_path_join root f) b (py_format p @ ''/'' @ object_name f) ?st2
       = (Inr v, st3)"
    by blast
  with Cons.IH [of st3] show ?case
    by (simp add: Let_def)
qed

lemma upload_walk_no_raise:
  assumes "\<And>l b k s e. fst (upload_file E cl l b k s) \<noteq> UploadRaises e"
  shows "fst (upload_walk E cl b p walk st) = Inr ()"
proof (induction walk arbitrary: st)
  case Nil
  show ?case by simp
next
  case (Cons t walk)
  obtain root dirs files where t: "t = (root, dirs, files)"
    by (cases t) auto
  obtain st1 where "upload_files E cl b p root files st = (Inr (), st1)"
    using upload_files_no_raise [OF assms, of b p root files st]
    by (cases "upload_files E cl b p root files st") auto
  with Cons.IH [of st1] t show ?case
    by simp
qed

lemma debug_print_walk:
  "concat (map (\<lambda>(root, dirs, files).
       map (\<lambda>file_name.
         ''Uploading file '' @ os_path_join root file_name @ '' as object ''
           @ ''dummy_cluster_id'' @ ''/'' @ object_name file_name) files) walk) =
     map (\<lambda>rf. ''Uploading file '' @ os_path_join (fst rf) (snd rf) @ '' as object ''
                 @ snd (snd (expected_upload bucket (Some ''dummy_cluster_id'') rf)))
       (walked_files walk)"
  by (induction walk)
     (auto simp: walked_files_def expected_upload_def object_name_def py_format_def)

lemma debug_print_lines:
  "debug_print_upload_to_s3 E install_dir =
     map (\<lambda>rf. ''Uploading file '' @ os_path_join (fst rf) (snd rf) @ '' as object ''
                 @ snd (snd (expected_upload bucket (Some ''dummy_cluster_id'') rf)))
       (walked_files (os_walk E install_dir))"
  unfolding debug_print_upload_to_s3_def by (rule debug_print_walk)

text \<open>
  C9. Every upload call that \<open>upload_to_s3\<close> makes is the expected one for a walked
  file, in the order of the walk: the local path is the directory joined with the file
  name, and the object key is the cluster id, a slash, and \<open>kubeconfig-noingress\<close> for a
  file named \<open>kubeconfig\<close>, the file's own name otherwise. The calls made are those for
  an initial part of the walked files, and for all of them when the function returns.
  \<open>debug_print_upload_to_s3\<close> prints the same keys under the fixed prefix
  \<open>dummy_cluster_id\<close>.
\<close>

theorem upload_to_s3_object_keys:
  assumes "upload_to_s3 E url bucket key_id secret install_dir cluster_id st = (r, st')"
  shows "(\<exists>dn. prefix dn (walked_files (os_walk E install_dir)) \<and>
            (r = Inr () \<longrightarrow> dn = walked_files (os_walk E install_dir)) \<and>
            upload_calls (outputs st') =
              upload_calls (outputs st) @ map (expected_upload bucket cluster_id) dn) \<and>
         debug_print_upload_to_s3 E install_dir =
           map (\<lambda>rf. ''Uploading file '' @ os_path_join (fst rf) (snd rf) @ '' as object ''
                  @ (if snd rf = ''kubeconfig'' then ''dummy_cluster_id/kubeconfig-noingress''
                     else ''dummy_cluster_id/'' @ snd rf))
             (walked_files (os_walk E install_dir))"
proof
  show "\<exists>dn. prefix dn (walked_files (os_walk E install_dir)) \<and>
            (r = Inr () \<longrightarrow> dn = walked_files (os_walk E install_dir)) \<and>
            upload_calls (outputs st') =
              upload_calls (outputs st) @ map (expected_upload bucket cluster_id) dn"
  proof (cases "get_s3_client E url key_id secret")
    case (Inl e)
    with assms have "st' = st" "r = Inl e"
      by (simp_all add: upload_to_s3_def)
    then show ?thesis
      by (intro exI [of _ "[]"]) simp
  next
    case (Inr cl)
    with assms have "upload_walk E cl bucket cluster_id (os_walk E install_dir) st = (r, st')"
      by (simp add: upload_to_s3_def)
    from upload_walk_calls [OF this] show ?thesis .
  qed
  show "debug_print_upload_to_s3 E install_dir =
           map (\<lambda>rf. ''Uploading file '' @ os_path_join (fst rf) (snd rf) @ '' as object ''
                  @ (if snd rf = ''kubeconfig'' then ''dummy_cluster_id/kubeconfig-noingress''
                     else ''dummy_cluster_id/'' @ snd rf))
             (walked_files (os_walk E install_dir))"
    by (simp add: debug_print_lines [of _ _ bucket] expected_upload_def py_format_def
          cong: map_cong)
qed

text \<open>
  C10. \<open>upload_to_aws\<close> turns a \<open>NoCredentialsError\<close> of the client into the result
  \<open>False\<close>, after the call was made. \<open>upload_to_s3\<close> does not look at that result: when
  the client can be made and no upload raises anything else, it returns normally,
  having attempted the upload of every walked file, however many of them failed for
  lack of credentials.
\<close>

theorem missing_credentials_do_not_abort:
  "(fst (upload_file E cl l b k (store st)) = NoCredentials \<longrightarrow>
      fst (upload_to_aws E cl l b k st) = Inr False \<and>
      upload_calls (outputs (snd (upload_to_aws E cl l b k st)))
        = upload_calls (outputs st) @ [(l, b, k)]) \<and>
   (get_s3_client E url key_id secret = Inr cl \<and>
    (\<forall>l b k s e. fst (upload_file E cl l b k s) \<noteq> UploadRaises e) \<longrightarrow>
      fst (upload_to_s3 E url bucket key_id secret install_dir cluster_id st) = Inr () \<and>
      upload_calls (outputs (snd (upload_to_s3 E url bucket key_id secret install_dir
          cluster_id st)))
        = upload_calls (outputs st)
            @ map (expected_upload bucket cluster_id) (walked_files (os_walk E install_dir)))"
proof (intro conjI impI)
  assume nc: "fst (upload_file E cl l b k (store st)) = NoCredentials"
  then show "fst (upload_to_aws E cl l b k st) = Inr False"
    by (cases "upload_file E cl l b k (store st)")
       (simp add: upload_to_aws_def out_def Let_def)
  show "upload_calls (outputs (snd (upload_to_aws E cl l b k st)))
        = upload_calls (outputs st) @ [(l, b, k)]"
    using upload_to_aws_calls [of E cl l b k st "fst (upload_to_aws E cl l b k st)"
        "snd (upload_to_aws E cl l b k st)"]
    by simp
next
  assume a: "get_s3_client E url key_id secret = Inr cl \<and>
    (\<forall>l b k s e. fst (upload_file E cl l b k s) \<noteq> UploadRaises e)"
  let ?run = "upload_walk E cl bucket cluster_id (os_walk E install_dir) st"
  from a have r: "fst ?run = Inr ()"
    by (intro upload_walk_no_raise) blast
  with a show "fst (upload_to_s3 E url bucket key_id secret install_dir cluster_id st) = Inr ()"
    by (simp add: upload_to_s3_def)
  from r have "?run = (Inr (), snd ?run)"
    by (cases ?run) simp
  from upload_walk_calls [OF this] a
  show "upload_calls (outputs (snd (upload_to_s3 E url bucket key_id secret install_dir
          cluster_id st)))
        = upload_calls (outputs st)
            @ map (expected_upload bucket cluster_id) (walked_files (os_walk E install_dir))"
    by (auto simp: upload_to_s3_def)
qed

section \<open>The decoder reads back what \<open>json.dump\<close> writes\<close>

subsection \<open>Strings\<close>

text \<open>Every escape \<open>json.dump\<close> writes for a character is read back as that character.\<close>

lemma char_eq_of_code: "(of_char c :: nat) = of_char d \<Longrightarrow> c = d"
  by simp

lemma hex_val_hex_digit: "k < 16 \<Longrightarrow> hex_val (hex_digit k) = Some k"
  by (auto simp: hex_val_def hex_digit_def Let_def)

lemma hex_val_zero: "hex_val (CHR ''0'') = Some 0"
  by (simp add: hex_val_def)

lemma scan_string_plain:
  assumes "c \<noteq> CHR 0x22" and "c \<noteq> CHR 0x5C" and "32 \<le> (of_char c :: nat)"
  shows "scan_string (c # s) = map_option (\<lambda>(x, r). (c # x, r)) (scan_string s)"
  using assms by simp

lemma scan_string_short:
  assumes "unescape e = Some c" and "e \<noteq> CHR ''u''"
  shows "scan_string (CHR 0x5C # e # s) = map_option (\<lambda>(x, r). (c # x, r)) (scan_string s)"
  using assms by simp

lemma scan_string_u00:
  assumes "(of_char c :: nat) = n"
  shows "scan_string (CHR 0x5C # CHR ''u'' # CHR ''0'' # CHR ''0'' # hex_digit (n div 16)
            # hex_digit (n mod 16) # s)
         = map_option (\<lambda>(x, r). (c # x, r)) (scan_string s)"
proof -
  have n: "n < 256" using assms nat_of_char_less_256 [of c] by simp
  then have d: "n div 16 < 16" by simp
  have c: "char_of n = c" using assms by auto
  have "(0 * 16 + 0) * 16 + n div 16 = n div 16" by simp
  from n d c show ?thesis
    by (simp add: hex_val_hex_digit hex_val_zero)
qed

lemma scan_string_escape:
  "scan_string (escape_char c @ s) = map_option (\<lambda>(x, r). (c # x, r)) (scan_string s)"
proof -
  define n where "n = (of_char c :: nat)"
  have c: "c = char_of n" by (simp add: n_def)
  consider (dq) "n = 0x22" | (bs) "n = 0x5C" | (b) "n = 8" | (f) "n = 12" | (nl) "n = 10"
    | (cr) "n = 13" | (t) "n = 9"
    | (u) "n \<noteq> 0x22" "n \<noteq> 0x5C" "n \<noteq> 8" "n \<noteq> 12" "n \<noteq> 10" "n \<noteq> 13" "n \<noteq> 9"
          "n < 0x20 \<or> 0x7E < n"
    | (plain) "n \<noteq> 0x22" "n \<noteq> 0x5C" "0x20 \<le> n" "n \<le> 0x7E"
    by linarith
  then show ?thesis
  proof cases
    case dq
    then have "c = CHR 0x22" by (intro char_eq_of_code) (simp add: n_def)
    then show ?thesis
      by (simp add: escape_char_def unescape_def)
  next
    case bs
    then have "c = CHR 0x5C" by (intro char_eq_of_code) (simp add: n_def)
    then show ?thesis
      by (simp add: escape_char_def unescape_def)
  next
    case b
    then have "c = CHR 0x08" by (intro char_eq_of_code) (simp add: n_def)
    then show ?thesis
      by (simp add: escape_char_def unescape_def)
  next
    case f
    then have "c = CHR 0x0C" by (intro char_eq_of_code) (simp add: n_def)
    then show ?thesis
      by (simp add: escape_char_def unescape_def)
  next
    case nl
    then have "c = CHR 0x0A" by (intro char_eq_of_code) (simp add: n_def)
    then show ?thesis
      by (simp add: escape_char_def unescape_def)
  next
    case cr
    then have "c = CHR 0x0D" by (intro char_eq_of_code) (simp add: n_def)
    then show ?thesis
      by (simp add: escape_char_def unescape_def)
  next
    case t
    then have "c = CHR 0x09" by (intro char_eq_of_code) (simp add: n_def)
    then show ?thesis
      by (simp add: escape_char_def unescape_def)
  next
    case u
    then have "escape_char c = [CHR 0x5C, CHR ''u'', CHR ''0'', CHR ''0'', hex_digit (n div 16),
        hex_digit (n mod 16)]"
      by (simp add: escape_char_def Let_def n_def)
    with scan_string_u00 [of c n s] show ?thesis
      by (simp add: n_def)
  next
    case plain
    then have e: "escape_char c = [c]"
      by (simp add: escape_char_def Let_def n_def)
    from plain have "c \<noteq> CHR 0x22" "c \<noteq> CHR 0x5C"
      by (auto simp: n_def)
    with plain(3) e show ?thesis
      by (simp add: n_def)
  qed
qed

lemma scan_string_escaped:
  "scan_string (concat (map escape_char s) @ CHR 0x22 # rest) = Some (s, rest)"
  by (induction s) (simp_all add: scan_string_escape)

lemma scan_string_encode_str:
  "encode_str s @ rest = CHR 0x22 # concat (map escape_char s) @ CHR 0x22 # rest"
  by (simp add: encode_str_def)

subsection \<open>Numbers\<close>

text \<open>
  A number is read the same whatever follows it, as long as that is the end of the text
  or one of the characters that end an item. The digits of an integer read back as the
  integer.
\<close>

lemma takeWhile_append_sep:
  "takeWhile P (xs @ ys) = (if dropWhile P xs = [] then xs @ takeWhile P ys else takeWhile P xs)"
  by (induction xs) auto

lemma dropWhile_append_sep:
  "dropWhile P (xs @ ys) = (if dropWhile P xs = [] then dropWhile P ys else dropWhile P xs @ ys)"
  by (induction xs) auto

lemma sep_start_not_digit: "sep_start s \<Longrightarrow> takeWhile is_digit s = [] \<and> dropWhile is_digit s = s"
  by (cases s) (auto simp: sep_start_def is_digit_def)

lemma dropWhile_Nil_takeWhile: "dropWhile P xs = [] \<Longrightarrow> takeWhile P xs = xs"
  by (induction xs) (auto split: if_split_asm)

lemma digits_append_sep:
  assumes "sep_start rest"
  shows "takeWhile is_digit (s @ rest) = takeWhile is_digit s"
    and "dropWhile is_digit (s @ rest) = dropWhile is_digit s @ rest"
  using assms
  by (simp_all add: takeWhile_append_sep dropWhile_append_sep sep_start_not_digit
        dropWhile_Nil_takeWhile)

lemma lex_int_append:
  assumes "lex_int s = Some (ip, r)" and "sep_start rest"
  shows "lex_int (s @ rest) = Some (ip, r @ rest)"
proof (cases s)
  case Nil
  with assms(1) show ?thesis by (simp add: lex_int_def)
next
  case (Cons c t)
  have a: "takeWhile is_digit (c # t @ rest) = takeWhile is_digit (c # t)"
    and b: "dropWhile is_digit (c # t @ rest) = dropWhile is_digit (c # t) @ rest"
    using digits_append_sep [OF assms(2), of "c # t"] by simp_all
  from Cons assms(1) show ?thesis
    unfolding lex_int_def Cons append_Cons list.case a b
    by (auto split: if_split_asm)
qed

lemma lex_frac_append:
  assumes "sep_start rest"
  shows "lex_frac (s @ rest) = (fst (lex_frac s), snd (lex_frac s) @ rest)"
proof (cases s)
  case Nil
  with assms show ?thesis
    by (cases rest) (auto simp: lex_frac_def sep_start_def)
next
  case (Cons c t)
  show ?thesis
  proof (cases "dropWhile is_digit t = []")
    case True
    with Cons assms show ?thesis
      by (auto simp: lex_frac_def takeWhile_append_sep dropWhile_append_sep sep_start_not_digit
            dropWhile_Nil_takeWhile)
  next
    case False
    with Cons assms show ?thesis
      by (auto simp: lex_frac_def takeWhile_append_sep dropWhile_append_sep)
  qed
qed

lemma lex_sign_append:
  assumes "sep_start rest"
  shows "lex_sign (s @ rest) = (fst (lex_sign s), snd (lex_sign s) @ rest)"
  using assms by (cases s; cases rest) (auto simp: lex_sign_def sep_start_def)

lemma lex_exp_append:
  assumes "sep_start rest"
  shows "lex_exp (s @ rest) = (fst (lex_exp s), snd (lex_exp s) @ rest)"
proof (cases s)
  case Nil
  with assms show ?thesis
    by (cases rest) (auto simp: lex_exp_def sep_start_def)
next
  case (Cons c t)
  show ?thesis
  proof (cases "dropWhile is_digit (snd (lex_sign t)) = []")
    case True
    with Cons assms show ?thesis
      by (auto simp: lex_exp_def lex_sign_append takeWhile_append_sep dropWhile_append_sep
            sep_start_not_digit dropWhile_Nil_takeWhile)
  next
    case False
    with Cons assms show ?thesis
      by (auto simp: lex_exp_def lex_sign_append takeWhile_append_sep dropWhile_append_sep)
  qed
qed

lemma lex_int_nonempty: "lex_int s = Some (ip, r) \<Longrightarrow> s \<noteq> []"
  by (auto simp: lex_int_def)

lemma scan_number_append:
  assumes "scan_number fr s = Some (v, r)" and "sep_start rest"
  shows "scan_number fr (s @ rest) = Some (v, r @ rest)"
proof -
  let ?neg = "s \<noteq> [] \<and> hd s = CHR ''-''"
  let ?s1 = "if ?neg then tl s else s"
  from assms(1) obtain ip r1 where li: "lex_int ?s1 = Some (ip, r1)"
    by (auto simp: scan_number_def Let_def split: option.split_asm)
  then have s1: "?s1 \<noteq> []" by (rule lex_int_nonempty)
  then have s: "s \<noteq> []" by (auto split: if_split_asm)
  then have neg: "((s @ rest) \<noteq> [] \<and> hd (s @ rest) = CHR ''-'') = ?neg"
    by simp
  have tl: "(if ?neg then tl (s @ rest) else s @ rest) = ?s1 @ rest"
    using s by auto
  from lex_int_append [OF li assms(2)] have "lex_int (?s1 @ rest) = Some (ip, r1 @ rest)" .
  with assms li show ?thesis
    unfolding scan_number_def neg tl Let_def
    by (auto simp: lex_frac_append lex_exp_append)
qed

lemma of_char_digit_char: "k < 10 \<Longrightarrow> (of_char (digit_char k) :: nat) = 48 + k"
  by (simp add: digit_char_def)

lemma is_digit_digit_char: "k < 10 \<Longrightarrow> is_digit (digit_char k)"
  by (simp add: is_digit_def of_char_digit_char)

lemma digit_val_digit_char: "k < 10 \<Longrightarrow> digit_val (digit_char k) = k"
  by (simp add: digit_val_def of_char_digit_char)

lemma digit_char_zero: "k < 10 \<Longrightarrow> (digit_char k = CHR ''0'') = (k = 0)"
proof
  assume k: "k < 10" and "digit_char k = CHR ''0''"
  then have "(of_char (digit_char k) :: nat) = of_char (CHR ''0'')" by simp
  with k show "k = 0" by (simp add: of_char_digit_char)
next
  assume "k = 0" then show "digit_char k = CHR ''0''"
    unfolding digit_char_def by (intro char_eq_of_code) simp
qed

lemma show_nat_nonempty: "show_nat n \<noteq> []"
  by (subst show_nat.simps) simp

lemma show_nat_digits: "\<forall>c \<in> set (show_nat n). is_digit c"
proof (induction n rule: show_nat.induct)
  case (1 n)
  show ?case
  proof (cases "n < 10")
    case True
    then show ?thesis by (subst show_nat.simps) (simp add: is_digit_digit_char)
  next
    case False
    with 1 show ?thesis by (subst show_nat.simps) (simp add: is_digit_digit_char)
  qed
qed

lemma show_nat_hd: "hd (show_nat n) = CHR ''0'' \<Longrightarrow> n = 0"
proof (induction n rule: show_nat.induct)
  case (1 n)
  show ?case
  proof (cases "n < 10")
    case True
    with 1(2) show ?thesis by (subst (asm) show_nat.simps) (simp add: digit_char_zero)
  next
    case False
    with 1(2) have "hd (show_nat (n div 10)) = CHR ''0''"
      by (subst (asm) show_nat.simps) (simp add: show_nat_nonempty)
    with 1(1) False have "n div 10 = 0" by simp
    with False show ?thesis by simp
  qed
qed

lemma show_nat_zero: "show_nat 0 = ''0''"
  by (subst show_nat.simps) (simp add: digit_char_zero)

lemma nat_of_digits_snoc: "nat_of_digits (xs @ [c]) = 10 * nat_of_digits xs + digit_val c"
  by (simp add: nat_of_digits_def)

lemma nat_of_digits_show_nat: "nat_of_digits (show_nat n) = n"
proof (induction n rule: show_nat.induct)
  case (1 n)
  show ?case
  proof (cases "n < 10")
    case True
    then show ?thesis
      by (subst show_nat.simps) (simp add: nat_of_digits_def digit_val_digit_char)
  next
    case False
    with 1 show ?thesis
      by (subst show_nat.simps) (simp add: nat_of_digits_snoc digit_val_digit_char)
  qed
qed

lemma all_digits_take: "\<forall>c \<in> set s. is_digit c \<Longrightarrow> takeWhile is_digit s = s \<and> dropWhile is_digit s = []"
  by (induction s) auto

lemma lex_int_show_nat: "lex_int (show_nat n) = Some (show_nat n, [])"
proof (cases "n = 0")
  case True
  then show ?thesis by (simp add: show_nat_zero lex_int_def)
next
  case False
  obtain c t where ct: "show_nat n = c # t"
    using show_nat_nonempty [of n] by (cases "show_nat n") auto
  from False show_nat_hd [of n] ct have c0: "c \<noteq> CHR ''0''" by auto
  from show_nat_digits [of n] ct have d: "is_digit c" by simp
  from all_digits_take [OF show_nat_digits [of n]] ct
  have "takeWhile is_digit (c # t) = c # t" "dropWhile is_digit (c # t) = []" by simp_all
  with c0 d ct show ?thesis unfolding lex_int_def ct list.case by simp
qed

lemma is_digit_not_minus: "is_digit c \<Longrightarrow> c \<noteq> CHR ''-''"
  by (auto simp: is_digit_def)

lemma show_nat_hd_not_minus: "hd (show_nat n) \<noteq> CHR ''-''"
proof -
  obtain c t where ct: "show_nat n = c # t"
    using show_nat_nonempty [of n] by (cases "show_nat n") auto
  with show_nat_digits [of n] have "is_digit c" by simp
  with ct show ?thesis by (simp add: is_digit_not_minus)
qed

lemma lex_frac_Nil: "lex_frac [] = ([], [])"
  by (simp add: lex_frac_def)

lemma lex_exp_Nil: "lex_exp [] = ([], [])"
  by (simp add: lex_exp_def)

lemma scan_number_show_int: "scan_number fr (show_int i) = Some (JInt i, [])"
proof (cases "i < 0")
  case True
  then show ?thesis
    by (simp add: scan_number_def show_int_def lex_int_show_nat lex_frac_Nil lex_exp_Nil
          nat_of_digits_show_nat)
next
  case False
  then show ?thesis
    by (simp add: scan_number_def show_int_def lex_int_show_nat lex_frac_Nil lex_exp_Nil
          nat_of_digits_show_nat show_nat_nonempty show_nat_hd_not_minus)
qed

lemma is_float_tokenD:
  assumes "is_float_token r"
  shows "\<exists>t. scan_number (\<lambda>t. t) r = Some (JFloat t, [])"
proof (cases "scan_number (\<lambda>t. t) r")
  case None
  with assms show ?thesis by (simp add: is_float_token_def)
next
  case (Some p)
  obtain v b where p: "p = (v, b)" by (cases p)
  with Some assms show ?thesis
    by (cases v; cases b) (simp_all add: is_float_token_def)
qed

lemma scan_number_float_token:
  assumes "is_float_token r" and "fr r = r"
  shows "scan_number fr r = Some (JFloat r, [])"
proof -
  from is_float_tokenD [OF assms(1)] obtain t where t: "scan_number (\<lambda>t. t) r = Some (JFloat t, [])"
    by blast
  let ?neg = "r \<noteq> [] \<and> hd r = CHR ''-''"
  let ?s1 = "if ?neg then tl r else r"
  from t obtain ip r1 where li: "lex_int ?s1 = Some (ip, r1)"
    by (auto simp: scan_number_def Let_def split: option.split_asm)
  have r: "r \<noteq> []" using lex_int_nonempty [OF li] by (auto split: if_split_asm)
  have parts: "?s1 = ip @ r1"
    using li by (cases ?s1) (auto simp: lex_int_def split: if_split_asm)
  have frac: "fst (lex_frac r1) @ snd (lex_frac r1) = r1"
    by (cases r1) (auto simp: lex_frac_def)
  have sign: "\<And>u. fst (lex_sign u) @ snd (lex_sign u) = u"
    subgoal for u by (cases u) (auto simp: lex_sign_def) done
  have ex: "\<And>u. fst (lex_exp u) @ snd (lex_exp u) = u"
    subgoal for u
    proof (cases u)
      case Nil
      then show ?thesis by (simp add: lex_exp_def)
    next
      case (Cons c v)
      have "fst (lex_sign v) @ takeWhile is_digit (snd (lex_sign v)) @ dropWhile is_digit (snd (lex_sign v)) = v"
        using sign [of v] by simp
      with Cons show ?thesis by (simp add: lex_exp_def)
    qed
    done
  from t li have r3: "snd (lex_exp (snd (lex_frac r1))) = []"
    by (auto simp: scan_number_def Let_def split: if_split_asm)
  from t li have tt: "t = (if ?neg then ''-'' else []) @ ip @ fst (lex_frac r1) @ fst (lex_exp (snd (lex_frac r1)))"
    by (auto simp: scan_number_def Let_def split: if_split_asm)
  have e2: "fst (lex_exp (snd (lex_frac r1))) = snd (lex_frac r1)"
    using ex [of "snd (lex_frac r1)"] r3 by simp
  have "r = (if ?neg then ''-'' else []) @ ?s1"
    using r by (cases r) auto
  also have "?s1 = ip @ r1" by (rule parts)
  also have "r1 = fst (lex_frac r1) @ fst (lex_exp (snd (lex_frac r1)))"
    unfolding e2 frac ..
  finally have "r = t" unfolding tt by simp
  from t li have nf: "\<not> (fst (lex_frac r1) = [] \<and> fst (lex_exp (snd (lex_frac r1))) = [])"
    by (auto simp: scan_number_def Let_def split: if_split_asm)
  from li nf r3 have "scan_number fr r = Some (JFloat (fr t), [])"
    unfolding tt by (simp add: scan_number_def Let_def)
  with \<open>r = t\<close> assms(2) show ?thesis by simp
qed

subsection \<open>Values\<close>

text \<open>The text of a value starts with a character that is not white space and closes nothing.\<close>

lemma skip_ws_start: "\<not> is_ws c \<Longrightarrow> skip_ws (c # t) = c # t"
  by (simp add: skip_ws_def)

lemma skip_ws_space: "skip_ws (CHR '' '' # s) = skip_ws s"
  by (simp add: skip_ws_def is_ws_def)

lemma skip_ws_Nil: "skip_ws [] = []"
  by (simp add: skip_ws_def)

lemma scan_number_start:
  assumes "scan_number fr s = Some vr"
  shows "\<exists>c t. s = c # t \<and> (c = CHR ''-'' \<or> is_digit c)"
proof -
  let ?neg = "s \<noteq> [] \<and> hd s = CHR ''-''"
  let ?s1 = "if ?neg then tl s else s"
  from assms obtain ip r1 where li: "lex_int ?s1 = Some (ip, r1)"
    by (auto simp: scan_number_def Let_def split: option.split_asm)
  show ?thesis
  proof (cases ?neg)
    case True
    then show ?thesis by (cases s) auto
  next
    case False
    with li have "lex_int s = Some (ip, r1)" by simp
    then show ?thesis
      by (cases s) (auto simp: lex_int_def is_digit_def split: if_split_asm)
  qed
qed

lemma number_start_plain:
  assumes "c = CHR ''-'' \<or> is_digit c"
  shows "\<not> is_ws c" and "c \<noteq> CHR '']''" and "c \<noteq> CHR ''}''" and "c \<noteq> CHR 0x22"
    and "c \<noteq> CHR ''{''" and "c \<noteq> CHR ''[''" and "c \<noteq> CHR ''n''" and "c \<noteq> CHR ''t''"
    and "c \<noteq> CHR ''f''"
  using assms by (auto simp: is_digit_def is_ws_def)

lemma parse_value_number:
  assumes "scan_number fr s = Some vr"
  shows "parse_value fr n s = Some vr"
proof -
  from scan_number_start [OF assms] obtain c t where
    s: "s = c # t" and c: "c = CHR ''-'' \<or> is_digit c"
    by blast
  from assms show ?thesis
    unfolding s using number_start_plain [OF c] by simp
qed

lemma show_int_start: "\<exists>c t. show_int i = c # t \<and> (c = CHR ''-'' \<or> is_digit c)"
  using scan_number_start [OF scan_number_show_int] .

lemma float_text_start:
  assumes "float_text fr r"
  shows "\<exists>c t. r = c # t \<and> \<not> is_ws c \<and> c \<noteq> CHR '']'' \<and> c \<noteq> CHR ''}''"
proof -
  from assms consider "r = ''NaN''" | "r = ''Infinity''" | "r = ''-Infinity''"
    | "is_float_token r" "fr r = r"
    by (auto simp: float_text_def)
  then show ?thesis
  proof cases
    case 4
    from scan_number_start [OF scan_number_float_token [of r fr, OF 4]] obtain c t where
      r: "r = c # t" and c: "c = CHR ''-'' \<or> is_digit c"
      by blast
    from number_start_plain(1-3) [OF c] r show ?thesis by simp
  qed (simp_all add: is_ws_def)
qed

lemma json_dumps_start:
  assumes "wf_json fr d"
  shows "\<exists>c t. json_dumps d = c # t \<and> \<not> is_ws c \<and> c \<noteq> CHR '']'' \<and> c \<noteq> CHR ''}''"
proof (cases d)
  case (JInt i)
  from show_int_start [of i] obtain c t where
    r: "show_int i = c # t" and c: "c = CHR ''-'' \<or> is_digit c"
    by blast
  from number_start_plain(1-3) [OF c] r JInt show ?thesis by simp
next
  case (JFloat r)
  with assms float_text_start [of fr r] show ?thesis by simp
qed (simp_all add: is_ws_def encode_str_def)

lemma lex_int_not_digit: "\<not> is_digit c \<Longrightarrow> lex_int (c # t) = None"
  by (auto simp: lex_int_def is_digit_def)

lemma scan_number_not_number:
  assumes "c \<noteq> CHR ''-''" and "\<not> is_digit c"
  shows "scan_number fr (c # t) = None"
  using assms by (simp add: scan_number_def lex_int_not_digit)

lemma scan_number_minus_not_number:
  assumes "\<not> is_digit c"
  shows "scan_number fr (CHR ''-'' # c # t) = None"
  using assms by (simp add: scan_number_def lex_int_not_digit)

lemma parse_value_NaN: "parse_value fr n (''NaN'' @ rest) = Some (JFloat ''NaN'', rest)"
  by (simp add: scan_number_not_number is_digit_def)

lemma parse_value_Infinity: "parse_value fr n (''Infinity'' @ rest) = Some (JFloat ''Infinity'', rest)"
  by (simp add: scan_number_not_number is_digit_def)

lemma parse_value_mInfinity: "parse_value fr n (''-Infinity'' @ rest) = Some (JFloat ''-Infinity'', rest)"
  by (simp add: scan_number_minus_not_number is_digit_def)

lemma parse_value_float:
  assumes "float_text fr r" and "sep_start rest"
  shows "parse_value fr n (r @ rest) = Some (JFloat r, rest)"
proof -
  from assms(1) consider "r = ''NaN''" | "r = ''Infinity''" | "r = ''-Infinity''"
    | "is_float_token r" "fr r = r"
    by (auto simp: float_text_def)
  then show ?thesis
  proof cases
    case 1
    then show ?thesis using parse_value_NaN by simp
  next
    case 2
    then show ?thesis using parse_value_Infinity by simp
  next
    case 3
    then show ?thesis using parse_value_mInfinity by simp
  next
    case 4
    from scan_number_append [OF scan_number_float_token [of r fr, OF 4] assms(2)]
    have "scan_number fr (r @ rest) = Some (JFloat r, rest)" by simp
    then show ?thesis by (rule parse_value_number)
  qed
qed

lemma parse_value_int:
  assumes "sep_start rest"
  shows "parse_value fr n (show_int i @ rest) = Some (JInt i, rest)"
proof -
  from scan_number_append [OF scan_number_show_int assms, of fr i]
  have "scan_number fr (show_int i @ rest) = Some (JInt i, rest)" by simp
  then show ?thesis by (rule parse_value_number)
qed

lemma parse_value_str:
  "parse_value fr n (encode_str s @ rest) = Some (JStr s, rest)"
  by (simp add: encode_str_def scan_string_escaped)

lemma sep_start_simps:
  "sep_start (CHR '','' # s)" "sep_start (CHR '']'' # s)" "sep_start (CHR ''}'' # s)"
  by (simp_all add: sep_start_def)

subsection \<open>Arrays and objects\<close>

text \<open>
  The items of an array or object are read back one by one; the counter, which is at
  least the length of the text, never runs out. A dict with distinct keys is the list
  of its pairs.
\<close>

lemma parse_elems_last:
  "parse_value fr m s = Some (v, CHR '']'' # r) \<Longrightarrow> parse_elems fr m s = Some ([v], r)"
  by (subst parse_elems.simps) (simp add: skip_ws_start is_ws_def del: parse_elems.simps)

lemma parse_elems_comma:
  "parse_value fr (Suc m) s = Some (v, CHR '','' # CHR '' '' # r) \<Longrightarrow>
   parse_elems fr (Suc m) s = map_option (\<lambda>(vs, r''). (v # vs, r'')) (parse_elems fr m (skip_ws r))"
  by (subst parse_elems.simps)
    (simp add: skip_ws_start is_ws_def skip_ws_space del: parse_elems.simps)

lemma parse_members_last:
  assumes "scan_string t = Some (k, CHR '':'' # CHR '' '' # r1)"
    and "parse_value fr m (skip_ws r1) = Some (v, CHR ''}'' # r3)"
  shows "parse_members fr m (CHR 0x22 # t) = Some ([(k, v)], r3)"
  using assms
  by (subst parse_members.simps)
    (simp add: skip_ws_start is_ws_def skip_ws_space del: parse_members.simps)

lemma parse_members_comma:
  assumes "scan_string t = Some (k, CHR '':'' # CHR '' '' # r1)"
    and "parse_value fr (Suc m) (skip_ws r1) = Some (v, CHR '','' # CHR '' '' # r3)"
  shows "parse_members fr (Suc m) (CHR 0x22 # t)
           = map_option (\<lambda>(kvs, r4). ((k, v) # kvs, r4)) (parse_members fr m (skip_ws r3))"
  using assms
  by (subst parse_members.simps)
    (simp add: skip_ws_start is_ws_def skip_ws_space del: parse_members.simps)

lemma skip_ws_dumps:
  assumes "wf_json fr d"
  shows "skip_ws (json_dumps d @ r) = json_dumps d @ r"
proof -
  from json_dumps_start [OF assms] obtain c t where
    "json_dumps d = c # t" and "\<not> is_ws c"
    by blast
  then show ?thesis by (simp add: skip_ws_start)
qed

lemma join_with_Cons2:
  "join_with sep (x # y # ys) @ r = x @ sep @ join_with sep (y # ys) @ r"
  by simp

lemma skip_ws_join:
  assumes "wf_json fr y"
  shows "skip_ws (join_with '', '' (map json_dumps (y # zs)) @ r)
           = join_with '', '' (map json_dumps (y # zs)) @ r"
proof (cases zs)
  case Nil
  then show ?thesis using skip_ws_dumps [OF assms] by simp
next
  case (Cons z zs')
  then show ?thesis using skip_ws_dumps [OF assms, of "'', '' @ join_with '', '' (map json_dumps (z # zs')) @ r"]
    by simp
qed

lemma length_join_Cons2:
  "length (join_with sep (x # y # ys)) = length x + length sep + length (join_with sep (y # ys))"
  by simp

lemma parse_elems_join:
  assumes IH: "\<And>x n rest. x \<in> set xs \<Longrightarrow> length (json_dumps x) \<le> n \<Longrightarrow> sep_start rest \<Longrightarrow>
                 parse_value fr n (json_dumps x @ rest) = Some (x, rest)"
    and wf: "\<forall>x \<in> set xs. wf_json fr x"
    and ne: "xs \<noteq> []"
    and len: "length (join_with '', '' (map json_dumps xs)) \<le> m"
  shows "parse_elems fr m (join_with '', '' (map json_dumps xs) @ CHR '']'' # rest) = Some (xs, rest)"
  using assms
proof (induction xs arbitrary: m rule: induct_list012)
  case 1
  then show ?case by simp
next
  case (2 x)
  from 2(1) [of x m "CHR '']'' # rest"] 2(4)
  have "parse_value fr m (json_dumps x @ CHR '']'' # rest) = Some (x, CHR '']'' # rest)"
    by (simp add: sep_start_simps)
  from parse_elems_last [OF this] show ?case by simp
next
  case (3 x y zs)
  let ?j = "join_with '', '' (map json_dumps (y # zs))"
  let ?tail = "?j @ CHR '']'' # rest"
  have le: "length (json_dumps x) + 2 + length ?j \<le> m"
    using 3(6) by (simp del: join_with.simps add: length_join_Cons2)
  then obtain m' where m: "m = Suc m'" by (cases m) auto
  from le m have len': "length ?j \<le> m'" and lx: "length (json_dumps x) \<le> Suc m'" by simp_all
  have pv: "parse_value fr (Suc m') (json_dumps x @ CHR '','' # CHR '' '' # ?tail)
              = Some (x, CHR '','' # CHR '' '' # ?tail)"
    using 3(3) [of x "Suc m'" "CHR '','' # CHR '' '' # ?tail"] lx by (simp add: sep_start_simps)
  have rec: "parse_elems fr m' ?tail = Some (y # zs, rest)"
    using 3(2) [of m'] 3(3) 3(4) len' by simp
  from 3(4) have wfy: "wf_json fr y" by simp
  have eq: "join_with '', '' (map json_dumps (x # y # zs)) @ CHR '']'' # rest
          = json_dumps x @ CHR '','' # CHR '' '' # ?tail"
    by simp
  show ?case
    unfolding eq m parse_elems_comma [OF pv] skip_ws_join [OF wfy] rec by simp
qed

lemma parse_members_join:
  assumes IH: "\<And>kv n rest. kv \<in> set kvs \<Longrightarrow> length (json_dumps (snd kv)) \<le> n \<Longrightarrow> sep_start rest \<Longrightarrow>
                 parse_value fr n (json_dumps (snd kv) @ rest) = Some (snd kv, rest)"
    and wf: "\<forall>kv \<in> set kvs. wf_json fr (snd kv)"
    and ne: "kvs \<noteq> []"
    and len: "length (join_with '', '' (map (\<lambda>kv. encode_str (fst kv) @ '': '' @ json_dumps (snd kv)) kvs)) \<le> m"
  shows "parse_members fr m
           (join_with '', '' (map (\<lambda>kv. encode_str (fst kv) @ '': '' @ json_dumps (snd kv)) kvs)
              @ CHR ''}'' # rest) = Some (kvs, rest)"
  using assms
proof (induction kvs arbitrary: m rule: induct_list012)
  case 1
  then show ?case by simp
next
  case (2 kv)
  obtain k v where kv: "kv = (k, v)" by (cases kv)
  from 2(2) kv have wfv: "wf_json fr v" by simp
  from 2(1) [of kv m "CHR ''}'' # rest"] 2(4) kv
  have pv: "parse_value fr m (skip_ws (json_dumps v @ CHR ''}'' # rest)) = Some (v, CHR ''}'' # rest)"
    by (simp add: sep_start_simps skip_ws_dumps [OF wfv])
  have ss: "scan_string (concat (map escape_char k) @ CHR 0x22 # CHR '':'' # CHR '' '' # json_dumps v @ CHR ''}'' # rest)
              = Some (k, CHR '':'' # CHR '' '' # json_dumps v @ CHR ''}'' # rest)"
    by (rule scan_string_escaped)
  from parse_members_last [OF ss pv] kv show ?case
    by (simp add: encode_str_def)
next
  case (3 kv y zs)
  let ?mt = "\<lambda>kv. encode_str (fst kv) @ '': '' @ json_dumps (snd kv)"
  let ?j = "join_with '', '' (map ?mt (y # zs))"
  let ?tail = "?j @ CHR ''}'' # rest"
  obtain k v where kv: "kv = (k, v)" by (cases kv)
  from 3(4) kv have wfv: "wf_json fr v" by simp
  have le: "length (?mt kv) + 2 + length ?j \<le> m"
    using 3(6) by (simp del: join_with.simps add: length_join_Cons2)
  then obtain m' where m: "m = Suc m'" by (cases m) auto
  from le m kv have len': "length ?j \<le> m'" and lx: "length (json_dumps v) \<le> Suc m'" by simp_all
  have pv: "parse_value fr (Suc m') (skip_ws (json_dumps v @ CHR '','' # CHR '' '' # ?tail))
              = Some (v, CHR '','' # CHR '' '' # ?tail)"
    using 3(3) [of kv "Suc m'" "CHR '','' # CHR '' '' # ?tail"] lx kv
    by (simp add: sep_start_simps skip_ws_dumps [OF wfv])
  have ss: "scan_string (concat (map escape_char k) @ CHR 0x22 # CHR '':'' # CHR '' '' # json_dumps v @ CHR '','' # CHR '' '' # ?tail)
              = Some (k, CHR '':'' # CHR '' '' # json_dumps v @ CHR '','' # CHR '' '' # ?tail)"
    by (rule scan_string_escaped)
  have rec: "parse_members fr m' ?tail = Some (y # zs, rest)"
    using 3(2) [of m'] 3(3) 3(4) len' by simp
  have sk: "skip_ws ?tail = ?tail"
    by (cases zs) (simp_all add: encode_str_def skip_ws_start is_ws_def)
  have eq: "join_with '', '' (map ?mt (kv # y # zs)) @ CHR ''}'' # rest
          = CHR 0x22 # concat (map escape_char k) @ CHR 0x22 # CHR '':'' # CHR '' '' # json_dumps v @ CHR '','' # CHR '' '' # ?tail"
    by (simp add: kv encode_str_def)
  show ?case
    unfolding eq m parse_members_comma [OF ss pv] sk rec by (simp add: kv)
qed

lemma update_fresh:
  "k \<notin> fst ` set al \<Longrightarrow> AList.update k v al = al @ [(k, v)]"
  by (induction al) auto

lemma foldl_update_distinct:
  "distinct (map fst (acc @ kvs)) \<Longrightarrow>
   foldl (\<lambda>acc kv. AList.update (fst kv) (snd kv) acc) acc kvs = acc @ kvs"
proof (induction kvs arbitrary: acc)
  case Nil
  then show ?case by simp
next
  case (Cons kv kvs)
  from Cons.prems have "fst kv \<notin> fst ` set acc" by auto
  then have u: "AList.update (fst kv) (snd kv) acc = acc @ [kv]"
    by (simp add: update_fresh)
  from Cons.prems have "distinct (map fst ((acc @ [kv]) @ kvs))" by simp
  from Cons.IH [OF this] u show ?case by simp
qed

lemma dict_of_distinct: "distinct (map fst kvs) \<Longrightarrow> dict_of kvs = kvs"
  using foldl_update_distinct [of "[]" kvs] by (simp add: dict_of_def)

subsection \<open>The round trip\<close>

text \<open>The decoder reads the text \<open>json.dump\<close> writes for a document as that document.\<close>

lemma parse_value_dumps:
  "wf_json fr d \<Longrightarrow> length (json_dumps d) \<le> n \<Longrightarrow> sep_start rest \<Longrightarrow>
   parse_value fr n (json_dumps d @ rest) = Some (d, rest)"
proof (induction d arbitrary: n rest)
  case JNull
  then show ?case by simp
next
  case (JBool b)
  then show ?case by simp
next
  case (JInt i)
  then show ?case by (simp add: parse_value_int)
next
  case (JFloat r)
  then show ?case by (simp add: parse_value_float)
next
  case (JStr s)
  then show ?case using parse_value_str by simp
next
  case (JArr xs)
  show ?case
  proof (cases xs)
    case Nil
    then show ?thesis by (simp add: skip_ws_start is_ws_def)
  next
    case (Cons x xs')
    let ?j = "join_with '', '' (map json_dumps xs)"
    from JArr.prems(1) have wf: "\<forall>x \<in> set xs. wf_json fr x" by simp
    from JArr.prems(2) obtain m where n: "n = Suc m" and len: "length ?j \<le> m"
      by (cases n) auto
    have IH: "\<And>x n rest. x \<in> set xs \<Longrightarrow> length (json_dumps x) \<le> n \<Longrightarrow> sep_start rest \<Longrightarrow>
                 parse_value fr n (json_dumps x @ rest) = Some (x, rest)"
      using JArr.IH wf by blast
    from Cons have ne: "xs \<noteq> []" by simp
    from parse_elems_join [OF IH wf ne len, of rest]
    have pe: "parse_elems fr m (?j @ CHR '']'' # rest) = Some (xs, rest)" by blast
    from wf Cons have "wf_json fr x" by simp
    from json_dumps_start [OF this] obtain c t where
      st: "json_dumps x = c # t" and c: "\<not> is_ws c" "c \<noteq> CHR '']''"
      by blast
    have "\<exists>t'. ?j @ CHR '']'' # rest = c # t'"
      unfolding Cons by (cases xs') (simp_all add: st)
    then obtain t' where jt: "?j @ CHR '']'' # rest = c # t'" by blast
    have "json_dumps (JArr xs) @ rest = CHR ''['' # c # t'"
      using jt by simp
    moreover have "parse_value fr (Suc m) (CHR ''['' # c # t') = Some (JArr xs, rest)"
      using pe c unfolding jt
      by (simp add: skip_ws_start del: parse_elems.simps)
    ultimately show ?thesis unfolding n by simp
  qed
next
  case (JObj kvs)
  show ?case
  proof (cases kvs)
    case Nil
    then show ?thesis by (simp add: skip_ws_start is_ws_def)
  next
    case (Cons kv kvs')
    let ?mt = "\<lambda>kv. encode_str (fst kv) @ '': '' @ json_dumps (snd kv)"
    let ?j = "join_with '', '' (map ?mt kvs)"
    from JObj.prems(1) have wf: "\<forall>kv \<in> set kvs. wf_json fr (snd kv)"
      and dist: "distinct (map fst kvs)" by simp_all
    from JObj.prems(2) obtain m where n: "n = Suc m" and len: "length ?j \<le> m"
      by (cases n) auto
    have IH: "\<And>kv n rest. kv \<in> set kvs \<Longrightarrow> length (json_dumps (snd kv)) \<le> n \<Longrightarrow> sep_start rest \<Longrightarrow>
                 parse_value fr n (json_dumps (snd kv) @ rest) = Some (snd kv, rest)"
    proof -
      fix kv :: "string \<times> json" and n rest
      assume a: "kv \<in> set kvs" "length (json_dumps (snd kv)) \<le> n" "sep_start rest"
      obtain k v where kv: "kv = (k, v)" by (cases kv)
      with a(1) wf have "wf_json fr v" by auto
      with JObj.IH [of kv v n rest] a kv
      show "parse_value fr n (json_dumps (snd kv) @ rest) = Some (snd kv, rest)"
        by simp
    qed
    from Cons have ne: "kvs \<noteq> []" by simp
    from parse_members_join [OF IH wf ne len, of rest]
    have pe: "parse_members fr m (?j @ CHR ''}'' # rest) = Some (kvs, rest)" by blast
    have "\<exists>t'. ?j @ CHR ''}'' # rest = CHR 0x22 # t'"
      unfolding Cons by (cases kvs') (simp_all add: encode_str_def)
    then obtain t' where jt: "?j @ CHR ''}'' # rest = CHR 0x22 # t'" by blast
    have "json_dumps (JObj kvs) @ rest = CHR ''{'' # CHR 0x22 # t'"
      using jt by simp
    moreover have "parse_value fr (Suc m) (CHR ''{'' # CHR 0x22 # t') = Some (JObj kvs, rest)"
      using pe unfolding jt
      by (simp add: skip_ws_start is_ws_def dict_of_distinct [OF dist] del: parse_members.simps)
    ultimately show ?thesis unfolding n by simp
  qed
qed

lemma json_loads_dumps:
  assumes "wf_json fr d"
  shows "json_loads fr (json_dumps d) = Some d"
proof -
  have "parse_value fr (length (json_dumps d)) (json_dumps d @ []) = Some (d, [])"
    by (rule parse_value_dumps [OF assms]) (simp_all add: sep_start_def)
  moreover have "skip_ws (json_dumps d) = json_dumps d"
    using skip_ws_dumps [OF assms, of "[]"] by simp
  ultimately show ?thesis
    by (simp add: json_loads_def skip_ws_Nil)
qed

text \<open>
  Every document the decoder returns is one of those: its dicts have distinct keys and
  its floats are written as they are read. So what was decoded can be written and
  decoded again.
\<close>

lemma scan_number_wf:
  assumes "float_repr_ok fr" and "scan_number fr s = Some (v, r)"
  shows "wf_json fr v"
proof -
  from assms(1) have f: "\<And>t. float_text fr (fr t)" by (simp add: float_repr_ok_def)
  from assms(2) show ?thesis
    by (auto simp: scan_number_def Let_def f split: option.split_asm if_split_asm)
qed

lemma set_update_subset: "set (AList.update k v al) \<subseteq> insert (k, v) (set al)"
  by (induction al) auto

lemma dict_of_invariant:
  assumes "distinct (map fst acc)" and "\<forall>kv \<in> set acc. P (snd kv)" and "\<forall>kv \<in> set kvs. P (snd kv)"
  shows "distinct (map fst (foldl (\<lambda>acc kv. AList.update (fst kv) (snd kv) acc) acc kvs)) \<and>
         (\<forall>kv \<in> set (foldl (\<lambda>acc kv. AList.update (fst kv) (snd kv) acc) acc kvs). P (snd kv))"
  using assms
proof (induction kvs arbitrary: acc)
  case Nil
  then show ?case by simp
next
  case (Cons kv kvs)
  have d: "distinct (map fst (AList.update (fst kv) (snd kv) acc))"
    using Cons.prems(1) by (rule AList.distinct_update)
  have p: "\<forall>x \<in> set (AList.update (fst kv) (snd kv) acc). P (snd x)"
    using set_update_subset [of "fst kv" "snd kv" acc] Cons.prems(2,3) by auto
  from Cons.prems(3) have "\<forall>kv \<in> set kvs. P (snd kv)" by simp
  from Cons.IH [OF d p this] show ?case by simp
qed

lemma dict_of_wf:
  assumes "\<forall>kv \<in> set kvs. wf_json fr (snd kv)"
  shows "wf_json fr (JObj (dict_of kvs))"
  using dict_of_invariant [of "[]" "wf_json fr" kvs] assms by (simp add: dict_of_def)

lemma pv_str: "parse_value fr n (CHR 0x22 # t) = map_option (\<lambda>(x, r). (JStr x, r)) (scan_string t)"
  by simp

lemma pv_obj:
  "parse_value fr n (CHR ''{'' # t) =
     (case skip_ws t of
        [] \<Rightarrow> None
      | c' # r \<Rightarrow>
          if c' = CHR ''}'' then Some (JObj [], r)
          else
            (case n of
               0 \<Rightarrow> None
             | Suc m \<Rightarrow>
                 map_option (\<lambda>(kvs, r'). (JObj (dict_of kvs), r'))
                   (parse_members fr m (c' # r))))"
  by (simp del: parse_members.simps parse_elems.simps)

lemma pv_arr:
  "parse_value fr n (CHR ''['' # t) =
     (case skip_ws t of
        [] \<Rightarrow> None
      | c' # r \<Rightarrow>
          if c' = CHR '']'' then Some (JArr [], r)
          else
            (case n of
               0 \<Rightarrow> None
             | Suc m \<Rightarrow>
                 map_option (\<lambda>(xs, r'). (JArr xs, r')) (parse_elems fr m (c' # r))))"
  by (simp del: parse_members.simps parse_elems.simps)

lemma pv_other:
  assumes "c \<noteq> CHR 0x22" "c \<noteq> CHR ''{''" "c \<noteq> CHR ''[''"
  shows "parse_value fr n (c # t) =
     (if prefix ''null'' (c # t) then Some (JNull, drop 4 (c # t))
      else if prefix ''true'' (c # t) then Some (JBool True, drop 4 (c # t))
      else if prefix ''false'' (c # t) then Some (JBool False, drop 5 (c # t))
      else
        (case scan_number fr (c # t) of
           Some vr \<Rightarrow> Some vr
         | None \<Rightarrow>
             if prefix ''NaN'' (c # t) then Some (JFloat ''NaN'', drop 3 (c # t))
             else if prefix ''Infinity'' (c # t) then Some (JFloat ''Infinity'', drop 8 (c # t))
             else if prefix ''-Infinity'' (c # t) then Some (JFloat ''-Infinity'', drop 9 (c # t))
             else None))"
  unfolding parse_value.simps using assms by (simp only: if_False)

lemma parse_value_other_wf:
  assumes ok: "float_repr_ok fr"
    and c: "c \<noteq> CHR 0x22" "c \<noteq> CHR ''{''" "c \<noteq> CHR ''[''"
    and pv: "parse_value fr n (c # t) = Some (v, r)"
  shows "wf_json fr v"
proof -
  note pv' = pv [unfolded pv_other [OF c]]
  show ?thesis
  proof (cases "prefix ''null'' (c # t)")
    case True
    with pv' show ?thesis by (simp only: if_True) auto
  next
    case n: False
    show ?thesis
    proof (cases "prefix ''true'' (c # t)")
      case True
      with pv' n show ?thesis by (simp only: if_True if_False) auto
    next
      case t: False
      show ?thesis
      proof (cases "prefix ''false'' (c # t)")
        case True
        with pv' n t show ?thesis by (simp only: if_True if_False) auto
      next
        case f: False
        show ?thesis
        proof (cases "scan_number fr (c # t)")
          case (Some vr)
          with pv' n t f have "scan_number fr (c # t) = Some (v, r)"
            by (simp only: if_False option.case)
          from scan_number_wf [OF ok this] show ?thesis .
        next
          case None
          with pv' n t f
          have "(if prefix ''NaN'' (c # t) then Some (JFloat ''NaN'', drop 3 (c # t))
             else if prefix ''Infinity'' (c # t) then Some (JFloat ''Infinity'', drop 8 (c # t))
             else if prefix ''-Infinity'' (c # t) then Some (JFloat ''-Infinity'', drop 9 (c # t))
             else None) = Some (v, r)"
            by (simp only: if_False option.case)
          then have "v = JFloat ''NaN'' \<or> v = JFloat ''Infinity'' \<or> v = JFloat ''-Infinity''"
            by (auto simp only: split: if_split_asm)
          then show ?thesis by (auto simp: float_text_def)
        qed
      qed
    qed
  qed
qed

lemma parse_value_wf_step:
  assumes ok: "float_repr_ok fr"
    and E: "\<And>m s vs r. n = Suc m \<Longrightarrow> parse_elems fr m s = Some (vs, r) \<Longrightarrow> \<forall>v \<in> set vs. wf_json fr v"
    and M: "\<And>m s kvs r. n = Suc m \<Longrightarrow> parse_members fr m s = Some (kvs, r) \<Longrightarrow>
              \<forall>kv \<in> set kvs. wf_json fr (snd kv)"
    and pv: "parse_value fr n s = Some (v, r)"
  shows "wf_json fr v"
proof (cases s)
  case Nil
  with pv show ?thesis by simp
next
  case (Cons c t)
  consider (str) "c = CHR 0x22" | (obj) "c = CHR ''{''" | (arr) "c = CHR ''[''"
    | (other) "c \<noteq> CHR 0x22" "c \<noteq> CHR ''{''" "c \<noteq> CHR ''[''"
    by blast
  then show ?thesis
  proof cases
    case str
    from pv have "\<exists>x. v = JStr x"
      unfolding Cons str pv_str by auto
    then show ?thesis by auto
  next
    case obj
    note pv' = pv [unfolded Cons obj pv_obj]
    show ?thesis
    proof (cases "skip_ws t")
      case Nil
      with pv' show ?thesis by (simp only: list.case) simp
    next
      case sk: (Cons c' r')
      show ?thesis
      proof (cases "c' = CHR ''}''")
        case True
        with pv' sk have "v = JObj []" by (simp only: list.case if_True) simp
        then show ?thesis by simp
      next
        case False
        with pv' sk have pv'': "(case n of 0 \<Rightarrow> None
             | Suc m \<Rightarrow> map_option (\<lambda>(kvs, r'). (JObj (dict_of kvs), r'))
                   (parse_members fr m (c' # r'))) = Some (v, r)"
          by (simp only: list.case if_False)
        then obtain m where n: "n = Suc m" by (cases n) (simp_all only: nat.case option.distinct)
        from pv'' [unfolded n nat.case] obtain kvs where
          pm: "parse_members fr m (c' # r') = Some (kvs, r)" and v: "v = JObj (dict_of kvs)"
          by (cases "parse_members fr m (c' # r')") (auto simp del: parse_members.simps)
        from M [OF n pm] dict_of_wf v show ?thesis by simp
      qed
    qed
  next
    case arr
    note pv' = pv [unfolded Cons arr pv_arr]
    show ?thesis
    proof (cases "skip_ws t")
      case Nil
      with pv' show ?thesis by (simp only: list.case) simp
    next
      case sk: (Cons c' r')
      show ?thesis
      proof (cases "c' = CHR '']''")
        case True
        with pv' sk have "v = JArr []" by (simp only: list.case if_True) simp
        then show ?thesis by simp
      next
        case False
        with pv' sk have pv'': "(case n of 0 \<Rightarrow> None
             | Suc m \<Rightarrow> map_option (\<lambda>(xs, r'). (JArr xs, r')) (parse_elems fr m (c' # r')))
               = Some (v, r)"
          by (simp only: list.case if_False)
        then obtain m where n: "n = Suc m" by (cases n) (simp_all only: nat.case option.distinct)
        from pv'' [unfolded n nat.case] obtain vs where
          pm: "parse_elems fr m (c' # r') = Some (vs, r)" and v: "v = JArr vs"
          by (cases "parse_elems fr m (c' # r')") (auto simp del: parse_elems.simps)
        from E [OF n pm] v show ?thesis by simp
      qed
    qed
  next
    case other
    from parse_value_other_wf [OF ok other pv [unfolded Cons]] show ?thesis .
  qed
qed

lemma parse_elems_wf_step:
  assumes V: "\<And>s v r. parse_value fr n s = Some (v, r) \<Longrightarrow> wf_json fr v"
    and E: "\<And>m s vs r. n = Suc m \<Longrightarrow> parse_elems fr m s = Some (vs, r) \<Longrightarrow> \<forall>v \<in> set vs. wf_json fr v"
    and pe: "parse_elems fr n s = Some (vs, r)"
  shows "\<forall>v \<in> set vs. wf_json fr v"
proof -
  from pe obtain v r1 where pv: "parse_value fr n s = Some (v, r1)"
    by (subst (asm) parse_elems.simps) (auto split: option.split_asm)
  from V [OF pv] have wv: "wf_json fr v" .
  from pe pv obtain c r' where sk: "skip_ws r1 = c # r'"
    by (subst (asm) parse_elems.simps) (auto simp del: parse_elems.simps split: list.split_asm)
  show ?thesis
  proof (cases "c = CHR '']''")
    case True
    with pe pv sk have "vs = [v]"
      by (subst (asm) parse_elems.simps) (auto simp del: parse_elems.simps)
    with wv show ?thesis by simp
  next
    case False
    with pe pv sk obtain m vs' where n: "n = Suc m"
      and rec: "parse_elems fr m (skip_ws r') = Some (vs', r)" and vs: "vs = v # vs'"
      by (subst (asm) parse_elems.simps)
        (auto simp del: parse_elems.simps split: if_split_asm nat.split_asm)
    from E [OF n rec] wv vs show ?thesis by simp
  qed
qed

lemma parse_members_wf_step:
  assumes V: "\<And>s v r. parse_value fr n s = Some (v, r) \<Longrightarrow> wf_json fr v"
    and M: "\<And>m s kvs r. n = Suc m \<Longrightarrow> parse_members fr m s = Some (kvs, r) \<Longrightarrow>
              \<forall>kv \<in> set kvs. wf_json fr (snd kv)"
    and pm: "parse_members fr n s = Some (kvs, r)"
  shows "\<forall>kv \<in> set kvs. wf_json fr (snd kv)"
proof -
  from pm obtain t where s: "s = CHR 0x22 # t"
    by (subst (asm) parse_members.simps)
      (auto simp del: parse_members.simps split: list.split_asm if_split_asm)
  from pm s obtain k r0 where ss: "scan_string t = Some (k, r0)"
    by (subst (asm) parse_members.simps)
      (auto simp del: parse_members.simps split: option.split_asm)
  from pm s ss obtain r1 where sk0: "skip_ws r0 = CHR '':'' # r1"
    by (subst (asm) parse_members.simps)
      (auto simp del: parse_members.simps split: list.split_asm if_split_asm)
  from pm s ss sk0 obtain v r2 where pv: "parse_value fr n (skip_ws r1) = Some (v, r2)"
    by (subst (asm) parse_members.simps)
      (auto simp del: parse_members.simps split: option.split_asm)
  from V [OF pv] have wv: "wf_json fr v" .
  from pm s ss sk0 pv obtain c r3 where sk: "skip_ws r2 = c # r3"
    by (subst (asm) parse_members.simps)
      (auto simp del: parse_members.simps split: list.split_asm)
  show ?thesis
  proof (cases "c = CHR ''}''")
    case True
    with pm s ss sk0 pv sk have "kvs = [(k, v)]"
      by (subst (asm) parse_members.simps) (auto simp del: parse_members.simps)
    with wv show ?thesis by simp
  next
    case False
    with pm s ss sk0 pv sk obtain m kvs' where n: "n = Suc m"
      and rec: "parse_members fr m (skip_ws r3) = Some (kvs', r)" and kvs: "kvs = (k, v) # kvs'"
      by (subst (asm) parse_members.simps)
        (auto simp del: parse_members.simps split: if_split_asm nat.split_asm)
    from M [OF n rec] wv kvs show ?thesis by simp
  qed
qed

lemma parse_wf_all:
  assumes ok: "float_repr_ok fr"
  shows "(\<forall>s v r. parse_value fr n s = Some (v, r) \<longrightarrow> wf_json fr v) \<and>
         (\<forall>s vs r. parse_elems fr n s = Some (vs, r) \<longrightarrow> (\<forall>v \<in> set vs. wf_json fr v)) \<and>
         (\<forall>s kvs r. parse_members fr n s = Some (kvs, r) \<longrightarrow> (\<forall>kv \<in> set kvs. wf_json fr (snd kv)))"
proof (induction n)
  case 0
  have V: "wf_json fr v" if pv: "parse_value fr 0 s = Some (v, r)" for s v r
    by (rule parse_value_wf_step [OF ok _ _ pv]) simp_all
  have E: "\<forall>v \<in> set vs. wf_json fr v" if pe: "parse_elems fr 0 s = Some (vs, r)" for s vs r
    by (rule parse_elems_wf_step [OF V _ pe]) simp_all
  have M: "\<forall>kv \<in> set kvs. wf_json fr (snd kv)" if pm: "parse_members fr 0 s = Some (kvs, r)" for s kvs r
    by (rule parse_members_wf_step [OF V _ pm]) simp_all
  from V E M show ?case by blast
next
  case (Suc n)
  from Suc have E0: "\<And>s vs r. parse_elems fr n s = Some (vs, r) \<Longrightarrow> \<forall>v \<in> set vs. wf_json fr v"
    and M0: "\<And>s kvs r. parse_members fr n s = Some (kvs, r) \<Longrightarrow> \<forall>kv \<in> set kvs. wf_json fr (snd kv)"
    by blast+
  have V: "wf_json fr v" if pv: "parse_value fr (Suc n) s = Some (v, r)" for s v r
  proof (rule parse_value_wf_step [OF ok _ _ pv])
    fix m s vs r assume "Suc n = Suc m" "parse_elems fr m s = Some (vs, r)"
    then show "\<forall>v \<in> set vs. wf_json fr v" using E0 [of s vs r] by simp
  next
    fix m s kvs r assume "Suc n = Suc m" "parse_members fr m s = Some (kvs, r)"
    then show "\<forall>kv \<in> set kvs. wf_json fr (snd kv)" using M0 [of s kvs r] by simp
  qed
  have E: "\<forall>v \<in> set vs. wf_json fr v" if pe: "parse_elems fr (Suc n) s = Some (vs, r)" for s vs r
  proof (rule parse_elems_wf_step [OF V _ pe])
    fix m s vs r assume "Suc n = Suc m" "parse_elems fr m s = Some (vs, r)"
    then show "\<forall>v \<in> set vs. wf_json fr v" using E0 [of s vs r] by simp
  qed
  have M: "\<forall>kv \<in> set kvs. wf_json fr (snd kv)" if pm: "parse_members fr (Suc n) s = Some (kvs, r)" for s kvs r
  proof (rule parse_members_wf_step [OF V _ pm])
    fix m s kvs r assume "Suc n = Suc m" "parse_members fr m s = Some (kvs, r)"
    then show "\<forall>kv \<in> set kvs. wf_json fr (snd kv)" using M0 [of s kvs r] by simp
  qed
  from V E M show ?case by blast
qed

lemma json_loads_wf:
  assumes "float_repr_ok fr" and "json_loads fr s = Some d"
  shows "wf_json fr d"
proof -
  from assms(2) obtain r where "parse_value fr (length s) (skip_ws s) = Some (d, r)"
    by (auto simp: json_loads_def split: option.split_asm if_split_asm)
  with parse_wf_all [OF assms(1), of "length s"] show ?thesis by blast
qed

lemma json_loads_round_trip:
  assumes "float_repr_ok fr" and "json_loads fr s = Some d"
  shows "json_loads fr (json_dumps d) = Some d"
  using json_loads_dumps [OF json_loads_wf [OF assms]] .

section \<open>Properties of \<open>update_bmh_files\<close>\<close>

lemma emit_fields [simp]:
  "disk (emit e w) = disk w" "read_only (emit e w) = read_only w"
  "capacity (emit e w) = capacity w" "trace (emit e w) = trace w @ [e]"
  by (simp_all add: emit_def)

lemma emit_as_trace: "emit e w = w\<lparr>trace := trace w @ [e]\<rparr>"
  by (simp add: emit_def)

lemma update_calls_append [simp]:
  "update_calls (xs @ ys) = update_calls xs @ update_calls ys"
  by (induction xs rule: update_calls.induct) simp_all

text \<open>The loop touches nothing but the trace, and what it does does not depend on the world.\<close>

lemma update_entries_frame:
  "\<exists>r evs. (\<forall>w. update_entries env items hosts w = (r, w\<lparr>trace := trace w @ evs\<rparr>)) \<and>
     list_all is_loop_event evs"
proof (induction items arbitrary: hosts)
  case Nil
  show ?case
    by (intro exI [of _ "Inr ([], hosts)"] exI [of _ "[]"]) simp
next
  case (Cons fd items)
  show ?case
  proof (cases "py_getitem fd ''path''")
    case (Inl e)
    then show ?thesis
      by (intro exI [of _ "Inl e"] exI [of _ "[]"]) simp
  next
    case (Inr path)
    note path = this
    show ?thesis
    proof (cases "is_bmh_cr_file env path")
      case (Inl e)
      with path show ?thesis
        by (intro exI [of _ "Inl e"] exI [of _ "[EvIsBmhCrFile path]"]) (simp add: emit_as_trace)
    next
      case (Inr b)
      note b = this
      show ?thesis
      proof (cases b)
        case False
        from Cons.IH [of hosts] obtain r evs where
          ih: "\<And>w. update_entries env items hosts w = (r, w\<lparr>trace := trace w @ evs\<rparr>)"
              "list_all is_loop_event evs"
          by blast
        show ?thesis
        proof (cases r)
          case (Inl e)
          with path b False ih show ?thesis
            by (intro exI [of _ "Inl e"] exI [of _ "EvIsBmhCrFile path # evs"])
               (simp add: emit_as_trace)
        next
          case (Inr p)
          obtain rest' hosts' where "p = (rest', hosts')" by (cases p) auto
          with Inr path b False ih show ?thesis
            by (intro exI [of _ "Inr (fd # rest', hosts')"] exI [of _ "EvIsBmhCrFile path # evs"])
               (simp add: emit_as_trace)
        qed
      next
        case True
        show ?thesis
        proof (cases "update_bmh_cr_file env fd hosts")
          case (Inl e)
          with path b True show ?thesis
            by (intro exI [of _ "Inl e"]
                  exI [of _ "[EvIsBmhCrFile path, EvUpdateBmhCrFile fd]"])
               (simp add: emit_as_trace)
        next
          case (Inr q)
          obtain fd' hosts1 where q: "q = (fd', hosts1)" by (cases q) auto
          from Cons.IH [of hosts1] obtain r evs where
            ih: "\<And>w. update_entries env items hosts1 w = (r, w\<lparr>trace := trace w @ evs\<rparr>)"
                "list_all is_loop_event evs"
            by blast
          show ?thesis
          proof (cases r)
            case (Inl e)
            with path b True Inr q ih show ?thesis
              by (intro exI [of _ "Inl e"]
                    exI [of _ "EvIsBmhCrFile path # EvUpdateBmhCrFile fd # evs"])
                 (simp add: emit_as_trace)
          next
            case (Inr p)
            obtain rest' hosts' where "p = (rest', hosts')" by (cases p) auto
            with Inr path b True \<open>update_bmh_cr_file env fd hosts = Inr q\<close> q ih show ?thesis
              by (intro exI [of _ "Inr (fd' # rest', hosts')"]
                    exI [of _ "EvIsBmhCrFile path # EvUpdateBmhCrFile fd # evs"])
                 (simp add: emit_as_trace)
          qed
        qed
      qed
    qed
  qed
qed

lemma update_entries_success:
  "update_entries env items hosts w = (Inr (items', hosts'), w') \<Longrightarrow>
     list_all2 (entry_result env) items items' \<and>
     update_calls (trace w') = update_calls (trace w) @ filter (qualifies env) items"
proof (induction items arbitrary: hosts w items')
  case Nil
  then show ?case by simp
next
  case (Cons fd items)
  from Cons.prems obtain path where path: "py_getitem fd ''path'' = Inr path"
    by (cases "py_getitem fd ''path''") auto
  from Cons.prems path obtain b where b: "is_bmh_cr_file env path = Inr b"
    by (cases "is_bmh_cr_file env path") auto
  show ?case
  proof (cases b)
    case False
    with Cons.prems path b obtain rest' where
      r: "update_entries env items hosts (emit (EvIsBmhCrFile path) w) = (Inr (rest', hosts'), w')"
         "items' = fd # rest'"
      by (auto split: sum.splits prod.splits)
    from Cons.IH [OF r(1)] r(2) path b False show ?thesis
      by (simp add: entry_result_def qualifies_def)
  next
    case True
    with Cons.prems path b obtain fd' hosts1 rest' where
      u: "update_bmh_cr_file env fd hosts = Inr (fd', hosts1)"
      and r: "update_entries env items hosts1
                (emit (EvUpdateBmhCrFile fd) (emit (EvIsBmhCrFile path) w))
              = (Inr (rest', hosts'), w')"
         "items' = fd' # rest'"
      by (auto split: sum.splits prod.splits)
    from Cons.IH [OF r(1)] r(2) path b True u show ?thesis
      by (auto simp: entry_result_def qualifies_def)
  qed
qed

lemma resolve_hosts_world:
  "snd (resolve_hosts env c ep w) = w\<lparr>trace := trace w @ retrieval_events c ep\<rparr>"
  by (simp add: resolve_hosts_def retrieval_events_def truthy_def emit_def
        split: option.splits)

lemma resolve_hosts_result:
  "fst (resolve_hosts env c ep w) = fst (resolve_hosts env c ep w0)"
  by (simp add: resolve_hosts_def split: option.splits)

lemma update_entries_world:
  assumes "update_entries env items hosts w = (r, w')"
  shows "\<exists>evs. w' = w\<lparr>trace := trace w @ evs\<rparr> \<and> list_all is_loop_event evs"
  using update_entries_frame [of env items hosts] assms by auto

lemma load_and_update_world:
  assumes "load_and_update env f c ep w = (r, w')"
  shows "\<exists>rest. w' = w\<lparr>trace := trace w @ retrieval_events c ep @ rest\<rparr> \<and>
           list_all (\<lambda>e. is_loop_event e \<or> e = EvOpenRead f) rest"
proof -
  obtain hr w1 where rh: "resolve_hosts env c ep w = (hr, w1)"
    by (cases "resolve_hosts env c ep w") auto
  with resolve_hosts_world [of env c ep w] have
    w1: "w1 = w\<lparr>trace := trace w @ retrieval_events c ep\<rparr>"
    by simp
  let ?w2 = "emit (EvOpenRead f) w1"
  have w2: "?w2 = w\<lparr>trace := trace w @ retrieval_events c ep @ [EvOpenRead f]\<rparr>"
    by (simp add: w1 emit_def)
  have early: "w' = w1 \<or> w' = ?w2 \<or>
     (\<exists>entries hosts r2. update_entries env entries hosts ?w2 = (r2, w'))"
    using assms rh
    by (auto simp: load_and_update_def split: sum.splits option.splits prod.splits)
  then show ?thesis
  proof (elim disjE exE)
    assume "w' = w1"
    with w1 show ?thesis by (intro exI [of _ "[]"]) simp
  next
    assume "w' = ?w2"
    with w2 show ?thesis by (intro exI [of _ "[EvOpenRead f]"]) simp
  next
    fix entries hosts r2
    assume "update_entries env entries hosts ?w2 = (r2, w')"
    from update_entries_world [OF this] obtain evs where
      "w' = ?w2\<lparr>trace := trace ?w2 @ evs\<rparr>" "list_all is_loop_event evs"
      by blast
    with w2 show ?thesis
      by (intro exI [of _ "EvOpenRead f # evs"]) (simp add: list_all_iff)
  qed
qed

lemma load_and_update_success:
  assumes "load_and_update env f c ep w = (Inr data', w')"
  shows "\<exists>hosts text data sf entries entries' hosts'.
           fst (resolve_hosts env c ep w) = Inr hosts \<and> disk w f = Some text \<and>
           json_load env text = Inr data \<and> storage_files data = Inr sf \<and>
           py_iter sf = Inr entries \<and>
           update_entries env entries hosts
             (emit (EvOpenRead f) (snd (resolve_hosts env c ep w))) = (Inr (entries', hosts'), w') \<and>
           data' = store_entries data sf entries'"
proof -
  obtain hr w1 where rh: "resolve_hosts env c ep w = (hr, w1)"
    by (cases "resolve_hosts env c ep w") auto
  with resolve_hosts_world [of env c ep w] have "disk w1 = disk w"
    by simp
  with assms rh show ?thesis
    by (auto simp: load_and_update_def storage_files_def
          split: sum.split_asm option.split_asm prod.split_asm)
qed

lemma persist_read_only:
  "read_only w f \<Longrightarrow> persist f data w = (Inl (permission_denied f), w)"
  by (simp add: persist_def)

lemma persist_writable:
  assumes "\<not> read_only w f"
  shows "persist f data w =
     (let t = (case capacity w of None \<Rightarrow> json_dumps data | Some n \<Rightarrow> take n (json_dumps data))
      in (if t = json_dumps data then Inr () else Inl no_space,
          w\<lparr>disk := (disk w)(f \<mapsto> t), trace := trace w @ [EvOpenWrite f, EvWrite f t]\<rparr>))"
  using assms
  by (auto simp: persist_def Let_def emit_def split: option.splits)

lemma update_bmh_files_fst:
  "fst (update_bmh_files env f c ep w) =
     (case fst (update_bmh_files_body env f c ep w) of
        Inl ex \<Rightarrow> Inl (wrap_exn ex) | Inr u \<Rightarrow> Inr u)"
  by (simp add: update_bmh_files_def split: prod.splits sum.splits)

lemma update_bmh_files_snd:
  "snd (update_bmh_files env f c ep w) = snd (update_bmh_files_body env f c ep w)"
  by (simp add: update_bmh_files_def split: prod.splits sum.splits)

lemma body_cases:
  assumes "update_bmh_files_body env f c ep w = (r, w')"
  shows "(\<exists>e. load_and_update env f c ep w = (Inl e, w') \<and> r = Inl e) \<or>
         (\<exists>data w1. load_and_update env f c ep w = (Inr data, w1) \<and>
            persist f data w1 = (r, w'))"
  using assms
  by (auto simp: update_bmh_files_body_def split: prod.split_asm sum.split_asm)

lemma body_world:
  assumes "update_bmh_files_body env f c ep w = (r, w')"
  shows "\<exists>rest wr. trace w' = trace w @ retrieval_events c ep @ rest @ wr \<and>
           list_all (\<lambda>e. is_loop_event e \<or> e = EvOpenRead f) rest \<and>
           (wr = [] \<and> disk w' = disk w \<or> (\<exists>t. wr = [EvOpenWrite f, EvWrite f t])) \<and>
           (\<forall>p. p \<noteq> f \<longrightarrow> disk w' p = disk w p) \<and>
           read_only w' = read_only w \<and> capacity w' = capacity w"
  using body_cases [OF assms]
proof (elim disjE exE conjE)
  fix e
  assume "load_and_update env f c ep w = (Inl e, w')"
  from load_and_update_world [OF this] obtain rest where
    "w' = w\<lparr>trace := trace w @ retrieval_events c ep @ rest\<rparr>"
    "list_all (\<lambda>e. is_loop_event e \<or> e = EvOpenRead f) rest"
    by blast
  then show ?thesis
    by (intro exI [of _ rest] exI [of _ "[]"]) simp
next
  fix data w1
  assume l: "load_and_update env f c ep w = (Inr data, w1)" and p: "persist f data w1 = (r, w')"
  from load_and_update_world [OF l] obtain rest where
    w1: "w1 = w\<lparr>trace := trace w @ retrieval_events c ep @ rest\<rparr>"
    and rest: "list_all (\<lambda>e. is_loop_event e \<or> e = EvOpenRead f) rest"
    by blast
  show ?thesis
  proof (cases "read_only w1 f")
    case True
    with p have "w' = w1" by (simp add: persist_read_only)
    with w1 rest show ?thesis
      by (intro exI [of _ rest] exI [of _ "[]"]) simp
  next
    case False
    let ?t = "case capacity w1 of None \<Rightarrow> json_dumps data | Some n \<Rightarrow> take n (json_dumps data)"
    from p persist_writable [OF False, of data] have
      "w' = w1\<lparr>disk := (disk w1)(f \<mapsto> ?t), trace := trace w1 @ [EvOpenWrite f, EvWrite f ?t]\<rparr>"
      by (simp add: Let_def)
    with w1 rest show ?thesis
      by (intro exI [of _ rest] exI [of _ "[EvOpenWrite f, EvWrite f ?t]"]) simp
  qed
qed

lemma loop_event_not_retrieval: "is_loop_event e \<or> e = EvOpenRead f \<Longrightarrow> \<not> is_retrieval e"
  by (cases e) auto

lemma loop_event_not_write: "is_loop_event e \<or> e = EvOpenRead f \<Longrightarrow> \<not> is_write e"
  by (cases e) auto

text \<open>
  C7. Every run starts with the host retrieval, before the document is opened and
  before any entry is looked at: a call of the inventory with the endpoint and the
  cluster id when the endpoint is a non-empty string, the announced call of the test
  provider otherwise. No later event of the run is a retrieval, and the host list
  is the result of that one call.
\<close>

theorem host_list_resolved_once:
  "(\<exists>rest. trace (snd (update_bmh_files env f c ep w))
             = trace w @ retrieval_events c ep @ rest \<and>
           list_all (\<lambda>e. \<not> is_retrieval e) rest) \<and>
   fst (resolve_hosts env c ep w) =
     (if truthy ep then get_inventory_hosts env (the ep) c else get_test_list_hosts env c)"
proof
  obtain r w' where b: "update_bmh_files_body env f c ep w = (r, w')"
    by (cases "update_bmh_files_body env f c ep w") auto
  from body_world [OF b] obtain rest wr where
    t: "trace w' = trace w @ retrieval_events c ep @ rest @ wr"
    and rest: "list_all (\<lambda>e. is_loop_event e \<or> e = EvOpenRead f) rest"
    and wr: "wr = [] \<or> (\<exists>t. wr = [EvOpenWrite f, EvWrite f t])"
    by blast
  have "list_all (\<lambda>e. \<not> is_retrieval e) (rest @ wr)"
    using rest wr loop_event_not_retrieval [of _ f]
    by (auto simp: list_all_iff)
  with t b show "\<exists>rest. trace (snd (update_bmh_files env f c ep w))
             = trace w @ retrieval_events c ep @ rest \<and>
           list_all (\<lambda>e. \<not> is_retrieval e) rest"
    by (intro exI [of _ "rest @ wr"]) (simp add: update_bmh_files_snd)
  show "fst (resolve_hosts env c ep w) =
     (if truthy ep then get_inventory_hosts env (the ep) c else get_test_list_hosts env c)"
    by (simp add: resolve_hosts_def truthy_def split: option.splits)
qed

lemma update_calls_retrieval [simp]: "update_calls (retrieval_events c ep) = []"
  by (simp add: retrieval_events_def)

lemma update_calls_no_loop:
  "list_all (\<lambda>e. \<not> is_loop_event e) evs \<Longrightarrow> update_calls evs = []"
  by (induction evs rule: update_calls.induct) simp_all

lemma load_failure_no_write:
  assumes "load_and_update env f c ep w = (r, w')" and "trace w' = trace w @ evs"
  shows "disk w' = disk w \<and> list_all (\<lambda>e. \<not> is_write e) evs"
proof -
  from load_and_update_world [OF assms(1)] obtain rest where
    w': "w' = w\<lparr>trace := trace w @ retrieval_events c ep @ rest\<rparr>"
    and rest: "list_all (\<lambda>e. is_loop_event e \<or> e = EvOpenRead f) rest"
    by blast
  from w' assms(2) have "evs = retrieval_events c ep @ rest"
    by simp
  with rest loop_event_not_write [of _ f] have "list_all (\<lambda>e. \<not> is_write e) evs"
    by (auto simp: list_all_iff retrieval_events_def)
  with w' show ?thesis by simp
qed

lemma load_success_updates:
  assumes "load_and_update env f c ep w = (Inr data', w1)"
  shows "\<exists>hosts text data sf entries entries' hosts'.
           fst (resolve_hosts env c ep w) = Inr hosts \<and> disk w f = Some text \<and>
           json_load env text = Inr data \<and> storage_files data = Inr sf \<and>
           py_iter sf = Inr entries \<and>
           fst (update_entries env entries hosts w) = Inr (entries', hosts') \<and>
           data' = store_entries data sf entries' \<and>
           list_all2 (entry_result env) entries entries' \<and>
           update_calls (trace w1) = update_calls (trace w) @ filter (qualifies env) entries"
proof -
  let ?w2 = "emit (EvOpenRead f) (snd (resolve_hosts env c ep w))"
  from load_and_update_success [OF assms] obtain hosts src data sf entries entries' hosts'
    where f: "fst (resolve_hosts env c ep w) = Inr hosts" "disk w f = Some src"
      "json_load env src = Inr data" "storage_files data = Inr sf" "py_iter sf = Inr entries"
      "data' = store_entries data sf entries'"
    and u: "update_entries env entries hosts ?w2 = (Inr (entries', hosts'), w1)"
    by blast
  from update_entries_frame [of env entries hosts] u
  have u': "fst (update_entries env entries hosts w) = Inr (entries', hosts')"
    by auto
  have "trace ?w2 = trace w @ retrieval_events c ep @ [EvOpenRead f]"
    by (simp add: resolve_hosts_world)
  with update_entries_success [OF u] f u' show ?thesis
    by simp
qed

text \<open>
  C1. When anything before the persist step raises (lines 43 to 55: the host
  retrieval, opening or decoding the document, finding the entries, the predicate or the
  mutation of a manifest), \<open>update_bmh_files\<close> raises, no file is opened for writing and
  the disk is as it was. When the file was opened for writing, the whole loop had
  returned: every entry is the result of the loop, and the entries handed to
  \<open>update_bmh_cr_file\<close> are exactly the qualifying ones, each call having returned.
\<close>

theorem no_write_unless_all_updated:
  assumes "update_bmh_files env f c ep w = (r, w')"
  shows "\<exists>evs. trace w' = trace w @ evs \<and>
     (\<forall>e w1. load_and_update env f c ep w = (Inl e, w1) \<longrightarrow>
        r = Inl (wrap_exn e) \<and> disk w' = disk w \<and> list_all (\<lambda>e. \<not> is_write e) evs) \<and>
     (list_ex is_write evs \<or> disk w' \<noteq> disk w \<longrightarrow>
        (\<exists>hosts text data sf entries entries' hosts'.
           fst (resolve_hosts env c ep w) = Inr hosts \<and> disk w f = Some text \<and>
           json_load env text = Inr data \<and> storage_files data = Inr sf \<and>
           py_iter sf = Inr entries \<and>
           fst (update_entries env entries hosts w) = Inr (entries', hosts') \<and>
           list_all2 (entry_result env) entries entries' \<and>
           update_calls evs = filter (qualifies env) entries))"
proof -
  obtain rb where b: "update_bmh_files_body env f c ep w = (rb, w')"
    and r: "r = (case rb of Inl ex \<Rightarrow> Inl (wrap_exn ex) | Inr u \<Rightarrow> Inr u)"
    using assms
    by (auto simp: update_bmh_files_def split: prod.split_asm sum.split_asm)
  from body_world [OF b] obtain evs where evs: "trace w' = trace w @ evs"
    by blast
  from body_cases [OF b] show ?thesis
  proof (elim disjE exE conjE)
    fix e
    assume l: "load_and_update env f c ep w = (Inl e, w')" and rb: "rb = Inl e"
    from load_failure_no_write [OF l evs] r rb l evs show ?thesis
      by (intro exI [of _ evs]) (auto simp: list_ex_iff list_all_iff)
  next
    fix data w1
    assume l: "load_and_update env f c ep w = (Inr data, w1)"
      and p: "persist f data w1 = (rb, w')"
    from load_success_updates [OF l] obtain hosts src data0 sf entries entries' hosts'
      where f: "fst (resolve_hosts env c ep w) = Inr hosts" "disk w f = Some src"
        "json_load env src = Inr data0" "storage_files data0 = Inr sf"
        "py_iter sf = Inr entries"
        "fst (update_entries env entries hosts w) = Inr (entries', hosts')"
        "list_all2 (entry_result env) entries entries'"
      and uc: "update_calls (trace w1) = update_calls (trace w) @ filter (qualifies env) entries"
      by blast
    have "update_calls (trace w') = update_calls (trace w1)"
      using p by (cases "read_only w1 f") (auto simp: persist_read_only persist_writable Let_def)
    with uc evs have "update_calls evs = filter (qualifies env) entries"
      by simp
    with f l evs show ?thesis
      by (intro exI [of _ evs]) auto
  qed
qed

lemma update_entries_fst:
  "fst (update_entries env items hosts w) = fst (update_entries env items hosts w0)"
  using update_entries_frame [of env items hosts] by auto

lemma load_retrieval_fails:
  "fst (resolve_hosts env c ep w) = Inl e \<Longrightarrow> fst (load_and_update env f c ep w) = Inl e"
  by (cases "resolve_hosts env c ep w") (simp add: load_and_update_def)

lemma load_open_fails:
  assumes "fst (resolve_hosts env c ep w) = Inr hosts" and "disk w f = None"
  shows "fst (load_and_update env f c ep w) = Inl (file_not_found f)"
proof -
  obtain w1 where "resolve_hosts env c ep w = (Inr hosts, w1)"
    using assms(1) by (cases "resolve_hosts env c ep w") auto
  moreover from this resolve_hosts_world [of env c ep w] have "disk w1 = disk w"
    by simp
  ultimately show ?thesis
    using assms(2) by (simp add: load_and_update_def)
qed

lemma load_decode_fails:
  assumes "fst (resolve_hosts env c ep w) = Inr hosts" and "disk w f = Some src"
    and "json_load env src = Inl e"
  shows "fst (load_and_update env f c ep w) = Inl e"
proof -
  obtain w1 where "resolve_hosts env c ep w = (Inr hosts, w1)"
    using assms(1) by (cases "resolve_hosts env c ep w") auto
  moreover from this resolve_hosts_world [of env c ep w] have "disk w1 = disk w"
    by simp
  ultimately show ?thesis
    using assms(2,3) by (simp add: load_and_update_def)
qed

lemma load_loop:
  assumes "fst (resolve_hosts env c ep w) = Inr hosts" and "disk w f = Some src"
    and "json_load env src = Inr data" and "storage_files data = Inr sf"
    and "py_iter sf = Inr entries"
  shows "fst (load_and_update env f c ep w) =
     (case fst (update_entries env entries hosts w) of
        Inl e \<Rightarrow> Inl e
      | Inr (entries', hosts') \<Rightarrow> Inr (store_entries data sf entries'))"
proof -
  obtain w1 where rh: "resolve_hosts env c ep w = (Inr hosts, w1)"
    using assms(1) by (cases "resolve_hosts env c ep w") auto
  from this resolve_hosts_world [of env c ep w] have d: "disk w1 = disk w"
    by simp
  obtain st where st: "py_getitem data ''storage'' = Inr st" "py_getitem st ''files'' = Inr sf"
    using assms(4) by (auto simp: storage_files_def split: sum.split_asm)
  obtain r2 w2 where u: "update_entries env entries hosts (emit (EvOpenRead f) w1) = (r2, w2)"
    by (cases "update_entries env entries hosts (emit (EvOpenRead f) w1)") auto
  then have "fst (update_entries env entries hosts w) = r2"
    using update_entries_fst [of env entries hosts w "emit (EvOpenRead f) w1"] by simp
  with rh d st u assms(2,3,5) show ?thesis
    by (simp add: load_and_update_def split: sum.splits prod.splits)
qed

lemma body_fst:
  "fst (update_bmh_files_body env f c ep w) =
     (case load_and_update env f c ep w of
        (Inl e, w1) \<Rightarrow> Inl e
      | (Inr data, w1) \<Rightarrow> fst (persist f data w1))"
  by (simp add: update_bmh_files_body_def split: prod.splits sum.splits)

text \<open>
  C8. Whatever the body of the \<open>try\<close> raises, \<open>update_bmh_files\<close> raises one
  exception of class \<open>Exception\<close>, whose text is the fixed prefix followed by the text
  of what was raised; it raises nothing else. This holds of a failing retrieval,
  a document that is missing or does not decode, a loop that raises (the predicate,
  or the mutation of a manifest, which is where the correlation fails), and a failing
  persist step.
\<close>

theorem failures_wrapped_once:
  "(\<forall>x. fst (update_bmh_files env f c ep w) = Inl x \<longleftrightarrow>
      (\<exists>cause. fst (update_bmh_files_body env f c ep w) = Inl cause \<and>
         x = Exn ''Exception''
               (''Failed to update BMH CRs in bootstrap ignition, exception: ''
                  @ exn_str cause))) \<and>
   (\<forall>e. fst (resolve_hosts env c ep w) = Inl e \<longrightarrow>
      fst (update_bmh_files env f c ep w) = Inl (wrap_exn e)) \<and>
   (\<forall>hosts src e. fst (resolve_hosts env c ep w) = Inr hosts \<and> disk w f = Some src \<and>
      json_load env src = Inl e \<longrightarrow>
      fst (update_bmh_files env f c ep w) = Inl (wrap_exn e)) \<and>
   (\<forall>hosts src data sf entries e.
      fst (resolve_hosts env c ep w) = Inr hosts \<and> disk w f = Some src \<and>
      json_load env src = Inr data \<and> storage_files data = Inr sf \<and>
      py_iter sf = Inr entries \<and> fst (update_entries env entries hosts w) = Inl e \<longrightarrow>
      fst (update_bmh_files env f c ep w) = Inl (wrap_exn e)) \<and>
   (\<forall>data w1 e. load_and_update env f c ep w = (Inr data, w1) \<and>
      fst (persist f data w1) = Inl e \<longrightarrow>
      fst (update_bmh_files env f c ep w) = Inl (wrap_exn e))"
proof (intro conjI allI impI)
  fix x
  show "fst (update_bmh_files env f c ep w) = Inl x \<longleftrightarrow>
      (\<exists>cause. fst (update_bmh_files_body env f c ep w) = Inl cause \<and>
         x = Exn ''Exception''
               (''Failed to update BMH CRs in bootstrap ignition, exception: ''
                  @ exn_str cause))"
    by (cases "fst (update_bmh_files_body env f c ep w)")
       (auto simp: update_bmh_files_fst wrap_exn_def)
next
  fix e
  assume "fst (resolve_hosts env c ep w) = Inl e"
  from load_retrieval_fails [OF this, of f]
  show "fst (update_bmh_files env f c ep w) = Inl (wrap_exn e)"
    by (cases "load_and_update env f c ep w") (simp add: update_bmh_files_fst body_fst)
next
  fix hosts src e
  assume "fst (resolve_hosts env c ep w) = Inr hosts \<and> disk w f = Some src \<and>
      json_load env src = Inl e"
  then have "fst (load_and_update env f c ep w) = Inl e"
    using load_decode_fails by blast
  then show "fst (update_bmh_files env f c ep w) = Inl (wrap_exn e)"
    by (cases "load_and_update env f c ep w") (simp add: update_bmh_files_fst body_fst)
next
  fix hosts src data sf entries e
  assume a: "fst (resolve_hosts env c ep w) = Inr hosts \<and> disk w f = Some src \<and>
      json_load env src = Inr data \<and> storage_files data = Inr sf \<and>
      py_iter sf = Inr entries \<and> fst (update_entries env entries hosts w) = Inl e"
  then have "fst (load_and_update env f c ep w) = Inl e"
    using load_loop [of env c ep w hosts f src data sf entries] by simp
  then show "fst (update_bmh_files env f c ep w) = Inl (wrap_exn e)"
    by (cases "load_and_update env f c ep w") (simp add: update_bmh_files_fst body_fst)
next
  fix data w1 e
  assume "load_and_update env f c ep w = (Inr data, w1) \<and> fst (persist f data w1) = Inl e"
  then show "fst (update_bmh_files env f c ep w) = Inl (wrap_exn e)"
    by (simp add: update_bmh_files_fst body_fst)
qed

lemma py_getitem_setitem_same:
  "py_getitem d k = Inr old \<Longrightarrow> py_getitem (py_setitem d k v) k = Inr v"
  by (cases d) (simp_all add: AList.update_conv')

lemma py_getitem_setitem_other:
  "k' \<noteq> k \<Longrightarrow> py_getitem (py_setitem d k v) k' = py_getitem d k'"
  by (cases d) (simp_all add: AList.update_conv')

lemma py_setitem_triv: "py_getitem d k = Inr v \<Longrightarrow> py_setitem d k v = d"
  by (cases d) (auto simp: AList.update_triv split: option.split_asm)

lemma storage_files_store_entries:
  assumes "storage_files data = Inr (JArr entries)"
  shows "storage_files (store_entries data (JArr entries) entries') = Inr (JArr entries')"
proof -
  obtain st where st: "py_getitem data ''storage'' = Inr st"
    "py_getitem st ''files'' = Inr (JArr entries)"
    using assms by (auto simp: storage_files_def split: sum.split_asm)
  then show ?thesis
    by (simp add: store_entries_def storage_files_def py_getitem_setitem_same)
qed

lemma store_entries_other_keys:
  "k \<noteq> ''storage'' \<Longrightarrow> py_getitem (store_entries data sf entries') k = py_getitem data k"
  by (simp add: store_entries_def py_getitem_setitem_other split: json.splits sum.splits)

lemma store_entries_same:
  assumes "storage_files data = Inr sf" and "py_iter sf = Inr entries"
  shows "store_entries data sf entries = data"
proof (cases sf)
  case (JArr xs)
  with assms(2) have xs: "xs = entries" by simp
  obtain st where st: "py_getitem data ''storage'' = Inr st"
    "py_getitem st ''files'' = Inr (JArr entries)"
    using assms(1) JArr xs by (auto simp: storage_files_def split: sum.split_asm)
  then show ?thesis
    by (simp add: store_entries_def JArr py_setitem_triv)
qed (simp_all add: store_entries_def)

lemma list_all2_entry_result_length:
  "list_all2 (entry_result env) entries entries' \<Longrightarrow> length entries' = length entries"
  by (simp add: list_all2_lengthD)

lemma run_succeeds:
  assumes "fst (update_bmh_files env f c ep w) = Inr ()"
  shows "\<exists>hosts src data sf entries entries' hosts' w1.
           fst (resolve_hosts env c ep w) = Inr hosts \<and> disk w f = Some src \<and>
           json_load env src = Inr data \<and> storage_files data = Inr sf \<and>
           py_iter sf = Inr entries \<and>
           fst (update_entries env entries hosts w) = Inr (entries', hosts') \<and>
           list_all2 (entry_result env) entries entries' \<and>
           load_and_update env f c ep w = (Inr (store_entries data sf entries'), w1) \<and>
           \<not> read_only w1 f \<and> disk w1 = disk w \<and> capacity w1 = capacity w \<and>
           read_only w1 = read_only w \<and>
           (case capacity w of None \<Rightarrow> True
            | Some n \<Rightarrow> take n (json_dumps (store_entries data sf entries'))
                         = json_dumps (store_entries data sf entries')) \<and>
           disk (snd (update_bmh_files env f c ep w)) f
             = Some (json_dumps (store_entries data sf entries'))"
proof -
  obtain rb w' where b: "update_bmh_files_body env f c ep w = (rb, w')"
    by (cases "update_bmh_files_body env f c ep w") auto
  with assms have rb: "rb = Inr ()"
    by (simp add: update_bmh_files_fst split: sum.split_asm)
  from body_cases [OF b] rb obtain data' w1 where
    l: "load_and_update env f c ep w = (Inr data', w1)" and p: "persist f data' w1 = (Inr (), w')"
    by auto
  from load_success_updates [OF l] obtain hosts src data sf entries entries' hosts'
    where f: "fst (resolve_hosts env c ep w) = Inr hosts" "disk w f = Some src"
      "json_load env src = Inr data" "storage_files data = Inr sf"
      "py_iter sf = Inr entries"
      "fst (update_entries env entries hosts w) = Inr (entries', hosts')"
      "data' = store_entries data sf entries'"
      "list_all2 (entry_result env) entries entries'"
    by blast
  from load_and_update_world [OF l] have w1: "disk w1 = disk w" "capacity w1 = capacity w"
    "read_only w1 = read_only w"
    by auto
  from p have ro: "\<not> read_only w1 f"
    by (auto simp: persist_read_only)
  from p persist_writable [OF ro, of data'] have
    t: "(case capacity w1 of None \<Rightarrow> json_dumps data' | Some n \<Rightarrow> take n (json_dumps data'))
          = json_dumps data'"
    and w': "disk w' f = Some (json_dumps data')"
    by (auto simp: Let_def split: if_split_asm)
  from t w1 have cap: "case capacity w of None \<Rightarrow> True
            | Some n \<Rightarrow> take n (json_dumps data') = json_dumps data'"
    by (simp split: option.splits)
  from b have "snd (update_bmh_files env f c ep w) = w'"
    by (simp add: update_bmh_files_snd)
  with f l w1 ro cap w' show ?thesis
    apply (rule_tac x = hosts in exI)
    apply (rule_tac x = src in exI)
    apply (rule_tac x = data in exI)
    apply (rule_tac x = sf in exI)
    apply (rule_tac x = entries in exI)
    apply (rule_tac x = entries' in exI)
    apply (rule_tac x = hosts' in exI)
    apply (rule_tac x = w1 in exI)
    apply (simp split: option.splits)
    done
qed

lemma entry_result_unqualified:
  "entry_result env fd fd' \<Longrightarrow> \<not> qualifies env fd \<Longrightarrow> fd' = fd"
  by (auto simp: entry_result_def)

lemma entry_result_qualified:
  "entry_result env fd fd' \<Longrightarrow> qualifies env fd \<Longrightarrow>
     \<exists>hs hs'. update_bmh_cr_file env fd hs = Inr (fd', hs')"
  by (auto simp: entry_result_def)

text \<open>
  C2. After a run that returns, the file holds the text of a document that is the
  decoded input with \<open>storage.files\<close> replaced: the list has the same length, an entry
  that does not qualify is the entry of the input at the same position, and every key of
  the document other than \<open>storage\<close> has the value it had. A qualifying entry is what
  \<open>update_bmh_cr_file\<close> made of the entry at the same position. That function is not in
  the source file; when it changes nothing of an entry but the value of \<open>contents\<close>
  (as the specification asks of it), a qualifying entry differs from the input's in
  \<open>contents\<close> only.
\<close>

theorem only_manifest_contents_change:
  assumes "fst (update_bmh_files env f c ep w) = Inr ()"
  shows "\<exists>src data data'.
     disk w f = Some src \<and> json_load env src = Inr data \<and>
     disk (snd (update_bmh_files env f c ep w)) f = Some (json_dumps data') \<and>
     (\<forall>k. k \<noteq> ''storage'' \<longrightarrow> py_getitem data' k = py_getitem data k) \<and>
     (\<forall>entries. storage_files data = Inr (JArr entries) \<longrightarrow>
        (\<exists>entries'. storage_files data' = Inr (JArr entries') \<and>
           length entries' = length entries \<and>
           (\<forall>i < length entries. \<not> qualifies env (entries ! i) \<longrightarrow>
              entries' ! i = entries ! i) \<and>
           (\<forall>i < length entries. qualifies env (entries ! i) \<longrightarrow>
              (\<exists>hs hs'. update_bmh_cr_file env (entries ! i) hs = Inr (entries' ! i, hs'))) \<and>
           ((\<forall>fd hs fd' hs'. update_bmh_cr_file env fd hs = Inr (fd', hs') \<longrightarrow>
                (\<exists>cnt. fd' = py_setitem fd ''contents'' cnt)) \<longrightarrow>
            (\<forall>i < length entries. qualifies env (entries ! i) \<longrightarrow>
               (\<exists>cnt. entries' ! i = py_setitem (entries ! i) ''contents'' cnt)))))"
proof -
  from run_succeeds [OF assms] obtain hosts src data sf entries0 entries' hosts'
    where f: "disk w f = Some src" "json_load env src = Inr data" "storage_files data = Inr sf"
      "py_iter sf = Inr entries0"
      "list_all2 (entry_result env) entries0 entries'"
      "disk (snd (update_bmh_files env f c ep w)) f
         = Some (json_dumps (store_entries data sf entries'))"
    by blast
  let ?data' = "store_entries data sf entries'"
  have "\<exists>entries'. storage_files ?data' = Inr (JArr entries') \<and>
           length entries' = length entries \<and>
           (\<forall>i < length entries. \<not> qualifies env (entries ! i) \<longrightarrow>
              entries' ! i = entries ! i) \<and>
           (\<forall>i < length entries. qualifies env (entries ! i) \<longrightarrow>
              (\<exists>hs hs'. update_bmh_cr_file env (entries ! i) hs = Inr (entries' ! i, hs'))) \<and>
           ((\<forall>fd hs fd' hs'. update_bmh_cr_file env fd hs = Inr (fd', hs') \<longrightarrow>
                (\<exists>cnt. fd' = py_setitem fd ''contents'' cnt)) \<longrightarrow>
            (\<forall>i < length entries. qualifies env (entries ! i) \<longrightarrow>
               (\<exists>cnt. entries' ! i = py_setitem (entries ! i) ''contents'' cnt)))"
    if sfl: "storage_files data = Inr (JArr entries)" for entries
  proof -
    from sfl f(3,4) have sf: "sf = JArr entries" and e0: "entries0 = entries"
      by auto
    from f(5) e0 have la: "list_all2 (entry_result env) entries entries'"
      by simp
    then have len: "length entries' = length entries"
      by (simp add: list_all2_lengthD)
    have nth: "entry_result env (entries ! i) (entries' ! i)" if "i < length entries" for i
      using la that by (simp add: list_all2_nthD)
    have "storage_files ?data' = Inr (JArr entries')"
      using storage_files_store_entries [OF sfl] sf by simp
    moreover have "\<forall>i < length entries. \<not> qualifies env (entries ! i) \<longrightarrow>
              entries' ! i = entries ! i"
      using nth entry_result_unqualified by blast
    moreover have q: "\<forall>i < length entries. qualifies env (entries ! i) \<longrightarrow>
              (\<exists>hs hs'. update_bmh_cr_file env (entries ! i) hs = Inr (entries' ! i, hs'))"
      using nth entry_result_qualified by blast
    moreover have "(\<forall>fd hs fd' hs'. update_bmh_cr_file env fd hs = Inr (fd', hs') \<longrightarrow>
                (\<exists>cnt. fd' = py_setitem fd ''contents'' cnt)) \<longrightarrow>
            (\<forall>i < length entries. qualifies env (entries ! i) \<longrightarrow>
               (\<exists>cnt. entries' ! i = py_setitem (entries ! i) ''contents'' cnt))"
      using q by blast
    ultimately show ?thesis
      using len by blast
  qed
  with f(1,2,6) store_entries_other_keys [of _ data sf entries'] show ?thesis
    apply (rule_tac x = src in exI)
    apply (rule_tac x = data in exI)
    apply (rule_tac x = "store_entries data sf entries'" in exI)
    apply (intro conjI allI impI)
        apply simp
       apply simp
      apply simp
     apply simp
    apply blast
    done
qed

lemma load_fst_char:
  "fst (load_and_update env f c ep w) =
     (case fst (resolve_hosts env c ep w) of
        Inl e \<Rightarrow> Inl e
      | Inr hosts \<Rightarrow>
          (case disk w f of
             None \<Rightarrow> Inl (file_not_found f)
           | Some src \<Rightarrow>
               (case json_load env src of
                  Inl e \<Rightarrow> Inl e
                | Inr data \<Rightarrow>
                    (case storage_files data of
                       Inl e \<Rightarrow> Inl e
                     | Inr sf \<Rightarrow>
                         (case py_iter sf of
                            Inl e \<Rightarrow> Inl e
                          | Inr entries \<Rightarrow>
                              (case fst (update_entries env entries hosts w) of
                                 Inl e \<Rightarrow> Inl e
                               | Inr (entries', hosts') \<Rightarrow>
                                   Inr (store_entries data sf entries')))))))"
proof (cases "fst (resolve_hosts env c ep w)")
  case (Inl e)
  then show ?thesis by (simp add: load_retrieval_fails)
next
  case (Inr hosts)
  note hosts = this
  show ?thesis
  proof (cases "disk w f")
    case None
    with hosts show ?thesis by (simp add: load_open_fails)
  next
    case (Some src)
    note src = this
    show ?thesis
    proof (cases "json_load env src")
      case (Inl e)
      with hosts src show ?thesis by (simp add: load_decode_fails)
    next
      case (Inr data)
      note data = this
      obtain w1 where rh: "resolve_hosts env c ep w = (Inr hosts, w1)"
        using hosts by (cases "resolve_hosts env c ep w") auto
      from this resolve_hosts_world [of env c ep w] have d: "disk w1 = disk w"
        by simp
      show ?thesis
      proof (cases "storage_files data")
        case (Inl e)
        with hosts src data rh d show ?thesis
          by (auto simp: load_and_update_def storage_files_def split: sum.splits)
      next
        case (Inr sf)
        note sf = this
        show ?thesis
        proof (cases "py_iter sf")
          case (Inl e)
          with hosts src data sf rh d show ?thesis
            by (auto simp: load_and_update_def storage_files_def split: sum.splits)
        next
          case (Inr entries)
          with hosts src data sf show ?thesis
            by (simp add: load_loop)
        qed
      qed
    qed
  qed
qed

lemma load_world_fields:
  "disk (snd (load_and_update env f c ep w)) = disk w"
  "read_only (snd (load_and_update env f c ep w)) = read_only w"
  "capacity (snd (load_and_update env f c ep w)) = capacity w"
  using load_and_update_world [of env f c ep w "fst (load_and_update env f c ep w)"
      "snd (load_and_update env f c ep w)"]
  by auto

lemma run_fst_char:
  "fst (update_bmh_files env f c ep w) =
     (case fst (load_and_update env f c ep w) of
        Inl e \<Rightarrow> Inl (wrap_exn e)
      | Inr data \<Rightarrow>
          if read_only w f then Inl (wrap_exn (permission_denied f))
          else if written (capacity w) data = json_dumps data then Inr ()
          else Inl (wrap_exn no_space))"
proof (cases "load_and_update env f c ep w")
  case (Pair r w1)
  with load_world_fields [of env f c ep w] have
    w1: "read_only w1 = read_only w" "capacity w1 = capacity w"
    by simp_all
  show ?thesis
  proof (cases r)
    case (Inl e)
    with Pair show ?thesis by (simp add: update_bmh_files_fst body_fst)
  next
    case (Inr data)
    with Pair w1 show ?thesis
      by (cases "read_only w f")
         (simp_all add: update_bmh_files_fst body_fst persist_read_only persist_writable
            written_def Let_def)
  qed
qed

lemma run_disk_char:
  "disk (snd (update_bmh_files env f c ep w)) =
     (case fst (load_and_update env f c ep w) of
        Inl e \<Rightarrow> disk w
      | Inr data \<Rightarrow>
          if read_only w f then disk w else (disk w)(f \<mapsto> written (capacity w) data))"
proof (cases "load_and_update env f c ep w")
  case (Pair r w1)
  with load_world_fields [of env f c ep w] have
    w1: "read_only w1 = read_only w" "capacity w1 = capacity w" "disk w1 = disk w"
    by simp_all
  show ?thesis
  proof (cases r)
    case (Inl e)
    with Pair w1 show ?thesis
      by (simp add: update_bmh_files_snd update_bmh_files_body_def)
  next
    case (Inr data)
    with Pair w1 show ?thesis
      by (cases "read_only w f")
         (simp_all add: update_bmh_files_snd update_bmh_files_body_def persist_read_only
            persist_writable written_def Let_def)
  qed
qed

lemma update_entries_none_qualify:
  "\<forall>fd \<in> set entries. \<not> qualifies env fd \<Longrightarrow>
   update_entries env entries hosts w = (Inr (entries', hosts'), w') \<Longrightarrow>
   entries' = entries \<and> hosts' = hosts"
proof (induction entries arbitrary: w entries')
  case Nil
  then show ?case by simp
next
  case (Cons fd entries)
  from Cons.prems(2) obtain path where path: "py_getitem fd ''path'' = Inr path"
    by (cases "py_getitem fd ''path''") auto
  from Cons.prems(2) path obtain b where b: "is_bmh_cr_file env path = Inr b"
    by (cases "is_bmh_cr_file env path") auto
  from Cons.prems(1) path b have nb: "\<not> b"
    by (simp add: qualifies_def)
  with Cons.prems(2) path b obtain rest' where
    r: "update_entries env entries hosts (emit (EvIsBmhCrFile path) w) = (Inr (rest', hosts'), w')"
       "entries' = fd # rest'"
    by (auto split: sum.split_asm prod.split_asm)
  from Cons.IH [OF _ r(1)] Cons.prems(1) r(2) show ?case
    by simp
qed

lemma update_entries_all_rejected:
  "\<forall>fd \<in> set entries. \<exists>p. py_getitem fd ''path'' = Inr p \<and> is_bmh_cr_file env p = Inr False \<Longrightarrow>
   fst (update_entries env entries hosts w) = Inr (entries, hosts)"
proof (induction entries arbitrary: w)
  case Nil
  show ?case by simp
next
  case (Cons fd entries)
  from Cons.prems obtain p where p: "py_getitem fd ''path'' = Inr p"
    "is_bmh_cr_file env p = Inr False"
    by auto
  from Cons.IH [of "emit (EvIsBmhCrFile p) w"] Cons.prems
  have "fst (update_entries env entries hosts (emit (EvIsBmhCrFile p) w)) = Inr (entries, hosts)"
    by simp
  with p show ?case
    by (cases "update_entries env entries hosts (emit (EvIsBmhCrFile p) w)") simp
qed

lemma load_none_qualify:
  assumes "disk w f = Some src" and "json_load env src = Inr data"
    and "storage_files data = Inr sf" and "py_iter sf = Inr entries"
    and "\<forall>fd \<in> set entries. \<not> qualifies env fd"
  shows "fst (load_and_update env f c ep w) = Inr data' \<Longrightarrow> data' = data"
proof -
  assume ok: "fst (load_and_update env f c ep w) = Inr data'"
  then obtain hosts where hosts: "fst (resolve_hosts env c ep w) = Inr hosts"
    by (cases "fst (resolve_hosts env c ep w)") (simp_all add: load_retrieval_fails)
  obtain r w' where u: "update_entries env entries hosts w = (r, w')"
    by (cases "update_entries env entries hosts w") auto
  from ok hosts assms(1-4) u obtain entries' hosts' where
    r: "r = Inr (entries', hosts')" and d: "data' = store_entries data sf entries'"
    by (cases r) (auto simp: load_loop)
  from update_entries_none_qualify [OF assms(5)] u r have "entries' = entries"
    by blast
  with d store_entries_same [OF assms(3,4)] show ?thesis
    by simp
qed

text \<open>
  C5. Take a decoder that returns exactly the documents \<open>json_loads\<close> reads, and a
  document in which no entry qualifies. A run that returns has written the text
  \<open>json.dump\<close> gives for the decoded input, and that text decodes to the very document
  the input decoded to: every entry, in its place, and every other field. When the
  input is itself a text \<open>json.dump\<close> writes for a document, the output is the input,
  character for character. A run that raises before the persist step, or cannot open
  the file for writing, leaves the disk as it was. And the run does return when the
  hosts are retrieved, every entry has a path the predicate rejects, the file can be
  written and there is room for the text.
\<close>

theorem no_manifest_round_trip:
  assumes "\<forall>s d. (json_load env s = Inr d) = (json_loads fr s = Some d)"
    and "float_repr_ok fr"
    and "disk w f = Some src" and "json_load env src = Inr data"
    and "storage_files data = Inr sf" and "py_iter sf = Inr entries"
    and "\<forall>fd \<in> set entries. \<not> qualifies env fd"
  shows "(fst (update_bmh_files env f c ep w) = Inr () \<longrightarrow>
            (\<exists>out. disk (snd (update_bmh_files env f c ep w)) f = Some out \<and>
               out = json_dumps data \<and>
               json_load env out = Inr data \<and>
               json_load env out = json_load env src \<and>
               ((\<exists>d. wf_json fr d \<and> src = json_dumps d) \<longrightarrow> out = src))) \<and>
         ((\<exists>e. fst (load_and_update env f c ep w) = Inl e) \<or> read_only w f \<longrightarrow>
            disk (snd (update_bmh_files env f c ep w)) = disk w) \<and>
         ((\<exists>hosts. fst (resolve_hosts env c ep w) = Inr hosts) \<and>
          (\<forall>fd \<in> set entries. \<exists>p. py_getitem fd ''path'' = Inr p \<and>
              is_bmh_cr_file env p = Inr False) \<and>
          \<not> read_only w f \<and>
          (case capacity w of None \<Rightarrow> True | Some n \<Rightarrow> length (json_dumps data) \<le> n) \<longrightarrow>
            fst (update_bmh_files env f c ep w) = Inr ())"
proof (intro conjI impI)
  assume ok: "fst (update_bmh_files env f c ep w) = Inr ()"
  then obtain data' where l: "fst (load_and_update env f c ep w) = Inr data'"
    by (cases "fst (load_and_update env f c ep w)") (simp_all add: run_fst_char)
  from load_none_qualify [OF assms(3-7) l] have d: "data' = data" .
  from ok l d have "\<not> read_only w f" "written (capacity w) data = json_dumps data"
    by (auto simp: run_fst_char split: if_split_asm)
  with l d have out: "disk (snd (update_bmh_files env f c ep w)) f = Some (json_dumps data)"
    by (simp add: run_disk_char)
  from assms(1,4) have dec: "json_loads fr src = Some data"
    by simp
  from json_loads_round_trip [OF assms(2) dec] assms(1)
  have rt: "json_load env (json_dumps data) = Inr data"
    by simp
  have same: "json_dumps data = src" if "\<exists>d. wf_json fr d \<and> src = json_dumps d"
  proof -
    from that obtain d where wf: "wf_json fr d" and src: "src = json_dumps d"
      by blast
    from json_loads_dumps [OF wf] dec src have "d = data"
      by simp
    with src show ?thesis by simp
  qed
  from out rt assms(4) same
  show "\<exists>out. disk (snd (update_bmh_files env f c ep w)) f = Some out \<and>
               out = json_dumps data \<and>
               json_load env out = Inr data \<and>
               json_load env out = json_load env src \<and>
               ((\<exists>d. wf_json fr d \<and> src = json_dumps d) \<longrightarrow> out = src)"
    by simp
next
  assume "(\<exists>e. fst (load_and_update env f c ep w) = Inl e) \<or> read_only w f"
  then show "disk (snd (update_bmh_files env f c ep w)) = disk w"
    by (auto simp: run_disk_char split: sum.splits)
next
  assume a: "(\<exists>hosts. fst (resolve_hosts env c ep w) = Inr hosts) \<and>
          (\<forall>fd \<in> set entries. \<exists>p. py_getitem fd ''path'' = Inr p \<and>
              is_bmh_cr_file env p = Inr False) \<and>
          \<not> read_only w f \<and>
          (case capacity w of None \<Rightarrow> True | Some n \<Rightarrow> length (json_dumps data) \<le> n)"
  then obtain hosts where hosts: "fst (resolve_hosts env c ep w) = Inr hosts"
    by blast
  from a have "fst (update_entries env entries hosts w) = Inr (entries, hosts)"
    by (simp add: update_entries_all_rejected)
  with hosts assms(3-6) have "fst (load_and_update env f c ep w) = Inr data"
    by (simp add: load_loop store_entries_same)
  moreover from a have "written (capacity w) data = json_dumps data"
    by (auto simp: written_def split: option.splits)
  ultimately show "fst (update_bmh_files env f c ep w) = Inr ()"
    using a by (simp add: run_fst_char)
qed

lemma persist_char:
  "persist f data w =
     (if read_only w f then (Inl (permission_denied f), w)
      else (if written (capacity w) data = json_dumps data then Inr () else Inl no_space,
            w\<lparr>disk := (disk w)(f \<mapsto> written (capacity w) data),
              trace := trace w @ [EvOpenWrite f, EvWrite f (written (capacity w) data)]\<rparr>))"
  by (simp add: persist_read_only persist_writable written_def Let_def)

text \<open>
  C4, in the form that holds of the code. The persist step writes the file in
  place. When the file cannot be
  opened for writing, the step raises and the world is as it was. Otherwise the file is
  emptied and then written: it ends as an initial part of the new text, the whole of
  it exactly when the step returns, and a proper initial part (the old text is lost)
  when the write runs out of room. No other file changes.
\<close>

theorem persist_in_place:
  "(read_only w f \<longrightarrow> persist f data w = (Inl (permission_denied f), w)) \<and>
   (\<not> read_only w f \<longrightarrow>
      (\<exists>t. disk (snd (persist f data w)) f = Some t \<and> prefix t (json_dumps data) \<and>
         (fst (persist f data w) = Inr () \<longleftrightarrow> t = json_dumps data) \<and>
         (t \<noteq> json_dumps data \<longrightarrow>
            fst (persist f data w) = Inl no_space \<and> length t < length (json_dumps data)) \<and>
         trace (snd (persist f data w)) = trace w @ [EvOpenWrite f, EvWrite f t])) \<and>
   (\<forall>p. p \<noteq> f \<longrightarrow> disk (snd (persist f data w)) p = disk w p)"
proof -
  have pre: "prefix (written (capacity w) data) (json_dumps data)"
    by (simp add: written_def take_is_prefix split: option.splits)
  have len: "written (capacity w) data \<noteq> json_dumps data \<Longrightarrow>
      length (written (capacity w) data) < length (json_dumps data)"
    by (auto simp: written_def split: option.split_asm)
  from pre len show ?thesis
    by (auto simp: persist_char)
qed

lemma spec_update_consumes:
  "spec_update_bmh_cr_file mc fd hosts = Inr (fd', hosts1) \<Longrightarrow> \<exists>h. hosts = h # hosts1"
  by (auto simp: spec_update_bmh_cr_file_def split: sum.split_asm list.split_asm)

lemma excess_manifests_fail:
  assumes "update_bmh_cr_file env = spec_update_bmh_cr_file mc"
  shows "length hosts < length (filter (qualifies env) entries) \<Longrightarrow>
         \<exists>e. fst (update_entries env entries hosts w) = Inl e"
proof (induction entries arbitrary: hosts w)
  case Nil
  then show ?case by simp
next
  case (Cons fd entries)
  show ?case
  proof (cases "py_getitem fd ''path''")
    case (Inl e)
    then show ?thesis by simp
  next
    case (Inr path)
    note path = this
    show ?thesis
    proof (cases "is_bmh_cr_file env path")
      case (Inl e)
      with path show ?thesis by simp
    next
      case (Inr b)
      note b = this
      show ?thesis
      proof (cases b)
        case False
        with path b have "\<not> qualifies env fd"
          by (simp add: qualifies_def)
        with Cons.prems have "length hosts < length (filter (qualifies env) entries)"
          by simp
        from Cons.IH [OF this, of "emit (EvIsBmhCrFile path) w"] path b False show ?thesis
          by (auto split: prod.splits sum.splits)
      next
        case True
        with path b have q: "qualifies env fd"
          by (simp add: qualifies_def)
        show ?thesis
        proof (cases "update_bmh_cr_file env fd hosts")
          case (Inl e)
          with path b True show ?thesis by simp
        next
          case (Inr r)
          obtain fd' hosts1 where r: "r = (fd', hosts1)" by (cases r) auto
          with Inr assms spec_update_consumes [of mc fd hosts fd' hosts1]
          obtain h where "hosts = h # hosts1"
            by auto
          with Cons.prems q have "length hosts1 < length (filter (qualifies env) entries)"
            by simp
          from Cons.IH [OF this,
              of "emit (EvUpdateBmhCrFile fd) (emit (EvIsBmhCrFile path) w)"]
            path b True Inr r show ?thesis
            by (auto split: prod.splits sum.splits)
        qed
      qed
    qed
  qed
qed

lemma excess_manifests_correlation_error:
  assumes "update_bmh_cr_file env = spec_update_bmh_cr_file mc"
  shows "length hosts < length (filter (qualifies env) entries) \<Longrightarrow>
         \<forall>fd \<in> set entries. well_formed_entry env mc fd \<Longrightarrow>
         fst (update_entries env entries hosts w) = Inl correlation_error"
proof (induction entries arbitrary: hosts w)
  case Nil
  then show ?case by simp
next
  case (Cons fd entries)
  from Cons.prems(2) obtain path b where path: "py_getitem fd ''path'' = Inr path"
    and b: "is_bmh_cr_file env path = Inr b"
    by (auto simp: well_formed_entry_def)
  show ?case
  proof (cases b)
    case False
    with path b have "\<not> qualifies env fd"
      by (simp add: qualifies_def)
    with Cons.prems have "length hosts < length (filter (qualifies env) entries)"
      by simp
    from Cons.IH [OF this, of "emit (EvIsBmhCrFile path) w"] Cons.prems(2) path b False
    show ?thesis
      by (auto split: prod.splits sum.splits)
  next
    case True
    with path b have q: "qualifies env fd"
      by (simp add: qualifies_def)
    with Cons.prems(2) obtain cnt m where cnt: "py_getitem fd ''contents'' = Inr cnt"
      and m: "decode_manifest mc cnt = Inr m"
      and enc: "\<And>h. \<exists>cnt'. encode_manifest mc cnt (apply_host mc h m) = Inr cnt'"
      by (auto simp: well_formed_entry_def)
    show ?thesis
    proof (cases hosts)
      case Nil
      with cnt m assms have "update_bmh_cr_file env fd hosts = Inl correlation_error"
        by (simp add: spec_update_bmh_cr_file_def)
      with path b True show ?thesis by simp
    next
      case (Cons h hosts1)
      from enc [of h] obtain cnt' where "encode_manifest mc cnt (apply_host mc h m) = Inr cnt'"
        by blast
      with cnt m assms Cons have
        u: "update_bmh_cr_file env fd hosts = Inr (py_setitem fd ''contents'' cnt', hosts1)"
        by (simp add: spec_update_bmh_cr_file_def)
      from Cons.prems(1) q Cons have "length hosts1 < length (filter (qualifies env) entries)"
        by simp
      from Cons.IH [OF this,
          of "emit (EvUpdateBmhCrFile fd) (emit (EvIsBmhCrFile path) w)"]
        Cons.prems(2) path b True u show ?thesis
        by (auto split: prod.splits sum.splits)
    qed
  qed
qed

lemma run_trace_no_write:
  assumes "fst (load_and_update env f c ep w) = Inl e"
  shows "list_all (\<lambda>e. \<not> is_write e)
           (drop (length (trace w)) (trace (snd (update_bmh_files env f c ep w))))"
proof -
  obtain w1 where l: "load_and_update env f c ep w = (Inl e, w1)"
    using assms by (cases "load_and_update env f c ep w") auto
  from load_and_update_world [OF l] obtain rest where
    "trace w1 = trace w @ retrieval_events c ep @ rest"
    by auto
  from load_failure_no_write [OF l this] l show ?thesis
    by (simp add: update_bmh_files_snd update_bmh_files_body_def \<open>trace w1 = _\<close>)
qed

text \<open>
  C3, for the manifest mutator of the specification. When the hosts are retrieved, the
  document decodes, and its \<open>storage.files\<close> list has more qualifying entries than there
  are hosts, \<open>update_bmh_files\<close> raises, writes nothing and leaves the disk as it was.
  When moreover nothing else can fail on the entries, what it raises is the wrapped
  correlation error: the manifest for which no host is left is not skipped.
\<close>

theorem more_manifests_than_hosts_fails:
  assumes "update_bmh_cr_file env = spec_update_bmh_cr_file mc"
    and "fst (resolve_hosts env c ep w) = Inr hosts"
    and "disk w f = Some src" and "json_load env src = Inr data"
    and "storage_files data = Inr (JArr entries)"
    and "length hosts < length (filter (qualifies env) entries)"
  shows "(\<exists>e. fst (update_bmh_files env f c ep w) = Inl e) \<and>
         disk (snd (update_bmh_files env f c ep w)) = disk w \<and>
         list_all (\<lambda>e. \<not> is_write e)
           (drop (length (trace w)) (trace (snd (update_bmh_files env f c ep w)))) \<and>
         ((\<forall>fd \<in> set entries. well_formed_entry env mc fd) \<longrightarrow>
            fst (update_bmh_files env f c ep w) = Inl (wrap_exn correlation_error))"
proof -
  from excess_manifests_fail [OF assms(1,6), of w] obtain e where
    e: "fst (update_entries env entries hosts w) = Inl e"
    by blast
  with assms(2-5) have l: "fst (load_and_update env f c ep w) = Inl e"
    by (simp add: load_loop)
  have "fst (update_bmh_files env f c ep w) = Inl (wrap_exn correlation_error)"
    if "\<forall>fd \<in> set entries. well_formed_entry env mc fd"
    using excess_manifests_correlation_error [OF assms(1,6) that, of w] e l
    by (simp add: run_fst_char)
  with l run_trace_no_write [OF l] show ?thesis
    by (simp add: run_fst_char run_disk_char)
qed

lemma manifest_ordinal_0: "manifest_ordinal env entries 0 = 0"
  by (simp add: manifest_ordinal_def)

lemma manifest_ordinal_Suc:
  "manifest_ordinal env (fd # entries) (Suc i) =
     (if qualifies env fd then Suc (manifest_ordinal env entries i)
      else manifest_ordinal env entries i)"
  by (simp add: manifest_ordinal_def)

lemma spec_update_injected:
  "spec_update_bmh_cr_file mc fd hosts = Inr (fd', hosts1) \<Longrightarrow>
   \<exists>h. hosts = h # hosts1 \<and> injected mc fd h = Some fd'"
  by (auto simp: spec_update_bmh_cr_file_def injected_def split: sum.split_asm list.split_asm)

lemma update_entries_Cons_returns:
  assumes "fst (update_entries env (fd # rest) hosts w) = Inr (es', hs')"
  shows "\<exists>p b. py_getitem fd ''path'' = Inr p \<and> is_bmh_cr_file env p = Inr b \<and>
           (if b
            then \<exists>fd' hosts1 rest'. update_bmh_cr_file env fd hosts = Inr (fd', hosts1) \<and>
                   fst (update_entries env rest hosts1 w) = Inr (rest', hs') \<and> es' = fd' # rest'
            else \<exists>rest'. fst (update_entries env rest hosts w) = Inr (rest', hs') \<and>
                   es' = fd # rest')"
proof -
  from assms obtain p where p: "py_getitem fd ''path'' = Inr p"
    by (cases "py_getitem fd ''path''") auto
  from assms p obtain b where b: "is_bmh_cr_file env p = Inr b"
    by (cases "is_bmh_cr_file env p") auto
  show ?thesis
  proof (cases b)
    case False
    let ?w = "emit (EvIsBmhCrFile p) w"
    from assms p b False obtain rest' where
      "fst (update_entries env rest hosts ?w) = Inr (rest', hs')" and "es' = fd # rest'"
      by (cases "update_entries env rest hosts ?w")
        (auto split: sum.split_asm prod.split_asm)
    with update_entries_fst [of env rest hosts ?w w] p b False show ?thesis
      by auto
  next
    case True
    let ?w = "emit (EvUpdateBmhCrFile fd) (emit (EvIsBmhCrFile p) w)"
    from assms p b True obtain fd' hosts1 where
      u: "update_bmh_cr_file env fd hosts = Inr (fd', hosts1)"
      by (cases "update_bmh_cr_file env fd hosts") auto
    with assms p b True obtain rest' where
      "fst (update_entries env rest hosts1 ?w) = Inr (rest', hs')" and "es' = fd' # rest'"
      by (cases "update_entries env rest hosts1 ?w")
        (auto split: sum.split_asm prod.split_asm)
    with update_entries_fst [of env rest hosts1 ?w w] p b True u show ?thesis
      by auto
  qed
qed

lemma spec_loop_correlated:
  assumes "update_bmh_cr_file env = spec_update_bmh_cr_file mc"
  shows "fst (update_entries env entries hosts w) = Inr (entries', hosts') \<Longrightarrow>
         length entries' = length entries \<and>
         (\<forall>i < length entries.
            if qualifies env (entries ! i)
            then manifest_ordinal env entries i < length hosts \<and>
                 injected mc (entries ! i) (hosts ! manifest_ordinal env entries i)
                   = Some (entries' ! i)
            else entries' ! i = entries ! i)"
proof (induction entries arbitrary: hosts entries')
  case Nil
  then show ?case by simp
next
  case (Cons fd rest)
  from update_entries_Cons_returns [OF Cons.prems] obtain p b where
    p: "py_getitem fd ''path'' = Inr p" and b: "is_bmh_cr_file env p = Inr b"
    and step: "if b
            then \<exists>fd' hosts1 rest'. update_bmh_cr_file env fd hosts = Inr (fd', hosts1) \<and>
                   fst (update_entries env rest hosts1 w) = Inr (rest', hosts') \<and>
                   entries' = fd' # rest'
            else \<exists>rest'. fst (update_entries env rest hosts w) = Inr (rest', hosts') \<and>
                   entries' = fd # rest'"
    by blast
  show ?case
  proof (cases b)
    case False
    with p b have nq: "\<not> qualifies env fd"
      by (simp add: qualifies_def)
    from step False obtain rest' where
      r: "fst (update_entries env rest hosts w) = Inr (rest', hosts')" and e: "entries' = fd # rest'"
      by auto
    note IH = Cons.IH [OF r]
    show ?thesis
    proof (intro conjI allI impI)
      show "length entries' = length (fd # rest)" using IH e by simp
    next
      fix i assume i: "i < length (fd # rest)"
      show "if qualifies env ((fd # rest) ! i)
            then manifest_ordinal env (fd # rest) i < length hosts \<and>
                 injected mc ((fd # rest) ! i) (hosts ! manifest_ordinal env (fd # rest) i)
                   = Some (entries' ! i)
            else entries' ! i = (fd # rest) ! i"
      proof (cases i)
        case 0
        with nq e show ?thesis by simp
      next
        case (Suc j)
        with i have "j < length rest" by simp
        with IH have "if qualifies env (rest ! j)
            then manifest_ordinal env rest j < length hosts \<and>
                 injected mc (rest ! j) (hosts ! manifest_ordinal env rest j) = Some (rest' ! j)
            else rest' ! j = rest ! j"
          by blast
        with Suc nq e show ?thesis
          by (simp add: manifest_ordinal_Suc)
      qed
    qed
  next
    case True
    with p b have q: "qualifies env fd"
      by (simp add: qualifies_def)
    from step True obtain fd' hosts1 rest' where
      u: "update_bmh_cr_file env fd hosts = Inr (fd', hosts1)"
      and r: "fst (update_entries env rest hosts1 w) = Inr (rest', hosts')"
      and e: "entries' = fd' # rest'"
      by auto
    from u assms spec_update_injected [of mc fd hosts fd' hosts1] obtain h where
      h: "hosts = h # hosts1" and inj: "injected mc fd h = Some fd'"
      by auto
    note IH = Cons.IH [OF r]
    show ?thesis
    proof (intro conjI allI impI)
      show "length entries' = length (fd # rest)" using IH e by simp
    next
      fix i assume i: "i < length (fd # rest)"
      show "if qualifies env ((fd # rest) ! i)
            then manifest_ordinal env (fd # rest) i < length hosts \<and>
                 injected mc ((fd # rest) ! i) (hosts ! manifest_ordinal env (fd # rest) i)
                   = Some (entries' ! i)
            else entries' ! i = (fd # rest) ! i"
      proof (cases i)
        case 0
        with q e h inj show ?thesis by (simp add: manifest_ordinal_0)
      next
        case (Suc j)
        with i have "j < length rest" by simp
        with IH have "if qualifies env (rest ! j)
            then manifest_ordinal env rest j < length hosts1 \<and>
                 injected mc (rest ! j) (hosts1 ! manifest_ordinal env rest j) = Some (rest' ! j)
            else rest' ! j = rest ! j"
          by blast
        with Suc q e h show ?thesis
          by (simp add: manifest_ordinal_Suc)
      qed
    qed
  qed
qed

lemma spec_loop_returns:
  assumes "update_bmh_cr_file env = spec_update_bmh_cr_file mc"
  shows "\<forall>fd \<in> set entries. well_formed_entry env mc fd \<Longrightarrow>
         length (filter (qualifies env) entries) \<le> length hosts \<Longrightarrow>
         \<exists>entries' hosts'. fst (update_entries env entries hosts w) = Inr (entries', hosts')"
proof (induction entries arbitrary: hosts w)
  case Nil
  then show ?case by simp
next
  case (Cons fd entries)
  from Cons.prems(1) obtain path b where path: "py_getitem fd ''path'' = Inr path"
    and b: "is_bmh_cr_file env path = Inr b"
    by (auto simp: well_formed_entry_def)
  show ?case
  proof (cases b)
    case False
    with path b have "\<not> qualifies env fd"
      by (simp add: qualifies_def)
    with Cons.prems have "length (filter (qualifies env) entries) \<le> length hosts"
      by simp
    from Cons.IH [OF _ this, of "emit (EvIsBmhCrFile path) w"] Cons.prems(1) path b False
    show ?thesis
      by (auto split: prod.splits sum.splits)
  next
    case True
    with path b have q: "qualifies env fd"
      by (simp add: qualifies_def)
    with Cons.prems(1) obtain cnt m where cnt: "py_getitem fd ''contents'' = Inr cnt"
      and m: "decode_manifest mc cnt = Inr m"
      and enc: "\<And>h. \<exists>cnt'. encode_manifest mc cnt (apply_host mc h m) = Inr cnt'"
      by (auto simp: well_formed_entry_def)
    from Cons.prems(2) q obtain h hosts1 where hs: "hosts = h # hosts1"
      by (cases hosts) auto
    from enc [of h] obtain cnt' where "encode_manifest mc cnt (apply_host mc h m) = Inr cnt'"
      by blast
    with cnt m assms hs have
      u: "update_bmh_cr_file env fd hosts = Inr (py_setitem fd ''contents'' cnt', hosts1)"
      by (simp add: spec_update_bmh_cr_file_def)
    from Cons.prems(2) q hs have "length (filter (qualifies env) entries) \<le> length hosts1"
      by simp
    from Cons.IH [OF _ this,
        of "emit (EvUpdateBmhCrFile fd) (emit (EvIsBmhCrFile path) w)"]
      Cons.prems(1) path b True u show ?thesis
      by (auto split: prod.splits sum.splits)
  qed
qed

text \<open>
  C6, for the manifest mutator of the specification. Take two runs on files that hold
  the same original text, with retrievals that give the same host list; the traces so
  far, the other files and the source of the host list may differ. Up to the persist
  step the two runs compute the same document or raise the same exception. When both
  return, both files hold the text of one and the same document: the decoded original
  with \<open>storage.files\<close> replaced by a list of the same length in which an entry that
  does not qualify is the original entry, and the qualifying entry at index \<open>i\<close> is the
  original entry with the host at the ordinal position of \<open>i\<close> injected: the first
  manifest takes the first host, the second the second, whatever lies between them.
  And both runs do return when nothing can fail on any entry, there are at least as
  many hosts as manifests, and both files can be written without limit.
\<close>

theorem same_inputs_same_document:
  assumes "update_bmh_cr_file env = spec_update_bmh_cr_file mc"
    and "disk w1 f = Some src" and "disk w2 f = Some src"
    and "json_load env src = Inr data"
    and "storage_files data = Inr sf" and "py_iter sf = Inr entries"
    and "fst (resolve_hosts env c1 ep1 w1) = Inr hosts"
    and "fst (resolve_hosts env c2 ep2 w2) = Inr hosts"
  shows "fst (load_and_update env f c1 ep1 w1) = fst (load_and_update env f c2 ep2 w2) \<and>
         (fst (update_bmh_files env f c1 ep1 w1) = Inr () \<and>
          fst (update_bmh_files env f c2 ep2 w2) = Inr () \<longrightarrow>
            (\<exists>entries'.
               disk (snd (update_bmh_files env f c1 ep1 w1)) f
                 = Some (json_dumps (store_entries data sf entries')) \<and>
               disk (snd (update_bmh_files env f c2 ep2 w2)) f
                 = Some (json_dumps (store_entries data sf entries')) \<and>
               length entries' = length entries \<and>
               (\<forall>i < length entries.
                  if qualifies env (entries ! i)
                  then manifest_ordinal env entries i < length hosts \<and>
                       injected mc (entries ! i) (hosts ! manifest_ordinal env entries i)
                         = Some (entries' ! i)
                  else entries' ! i = entries ! i))) \<and>
         ((\<forall>fd \<in> set entries. well_formed_entry env mc fd) \<and>
          length (filter (qualifies env) entries) \<le> length hosts \<and>
          \<not> read_only w1 f \<and> \<not> read_only w2 f \<and>
          capacity w1 = None \<and> capacity w2 = None \<longrightarrow>
            fst (update_bmh_files env f c1 ep1 w1) = Inr () \<and>
            fst (update_bmh_files env f c2 ep2 w2) = Inr ())"
proof (intro conjI impI)
  have l1: "fst (load_and_update env f c1 ep1 w1) =
     (case fst (update_entries env entries hosts w1) of
        Inl e \<Rightarrow> Inl e
      | Inr (entries', hosts') \<Rightarrow> Inr (store_entries data sf entries'))"
    by (rule load_loop [OF assms(7,2,4,5,6)])
  have l2: "fst (load_and_update env f c2 ep2 w2) =
     (case fst (update_entries env entries hosts w1) of
        Inl e \<Rightarrow> Inl e
      | Inr (entries', hosts') \<Rightarrow> Inr (store_entries data sf entries'))"
    using load_loop [OF assms(8,3,4,5,6)] update_entries_fst [of env entries hosts w2 w1]
    by simp
  from l1 l2 show "fst (load_and_update env f c1 ep1 w1) = fst (load_and_update env f c2 ep2 w2)"
    by simp
  {
    assume ok: "fst (update_bmh_files env f c1 ep1 w1) = Inr () \<and>
          fst (update_bmh_files env f c2 ep2 w2) = Inr ()"
    then obtain data' where d1: "fst (load_and_update env f c1 ep1 w1) = Inr data'"
      by (cases "fst (load_and_update env f c1 ep1 w1)") (simp_all add: run_fst_char)
    with l1 obtain entries' hosts' where
      u: "fst (update_entries env entries hosts w1) = Inr (entries', hosts')"
      and d: "data' = store_entries data sf entries'"
      by (cases "fst (update_entries env entries hosts w1)") auto
    from d1 l1 l2 have d2: "fst (load_and_update env f c2 ep2 w2) = Inr data'"
      by simp
    from ok d1 have w1: "\<not> read_only w1 f" "written (capacity w1) data' = json_dumps data'"
      by (auto simp: run_fst_char split: if_split_asm)
    from ok d2 have w2: "\<not> read_only w2 f" "written (capacity w2) data' = json_dumps data'"
      by (auto simp: run_fst_char split: if_split_asm)
    from d1 w1 d have o1: "disk (snd (update_bmh_files env f c1 ep1 w1)) f
                 = Some (json_dumps (store_entries data sf entries'))"
      by (simp add: run_disk_char)
    from d2 w2 d have o2: "disk (snd (update_bmh_files env f c2 ep2 w2)) f
                 = Some (json_dumps (store_entries data sf entries'))"
      by (simp add: run_disk_char)
    from spec_loop_correlated [OF assms(1) u] o1 o2
    show "\<exists>entries'.
               disk (snd (update_bmh_files env f c1 ep1 w1)) f
                 = Some (json_dumps (store_entries data sf entries')) \<and>
               disk (snd (update_bmh_files env f c2 ep2 w2)) f
                 = Some (json_dumps (store_entries data sf entries')) \<and>
               length entries' = length entries \<and>
               (\<forall>i < length entries.
                  if qualifies env (entries ! i)
                  then manifest_ordinal env entries i < length hosts \<and>
                       injected mc (entries ! i) (hosts ! manifest_ordinal env entries i)
                         = Some (entries' ! i)
                  else entries' ! i = entries ! i)"
      by blast
  }
  {
    assume a: "(\<forall>fd \<in> set entries. well_formed_entry env mc fd) \<and>
          length (filter (qualifies env) entries) \<le> length hosts \<and>
          \<not> read_only w1 f \<and> \<not> read_only w2 f \<and>
          capacity w1 = None \<and> capacity w2 = None"
    then have wf: "\<forall>fd \<in> set entries. well_formed_entry env mc fd"
      and n: "length (filter (qualifies env) entries) \<le> length hosts"
      by simp_all
    from spec_loop_returns [OF assms(1) wf n, of w1] obtain entries' hosts' where
      u: "fst (update_entries env entries hosts w1) = Inr (entries', hosts')"
      by blast
    from u l1 a show "fst (update_bmh_files env f c1 ep1 w1) = Inr ()"
      by (simp add: run_fst_char written_def)
    from u l2 a show "fst (update_bmh_files env f c2 ep2 w2) = Inr ()"
      by (simp add: run_fst_char written_def)
  }
qed

section \<open>The properties on the concrete scenario\<close>

theorem upload_to_s3_object_keys_witness:
  "upload_calls (outputs (snd (upload_to_s3 example_upload_env ''http://s3'' ''test'' ''id''
       ''secret'' ''/w'' (Some ''c1'') empty_store))) =
     [(''/w/bootstrap.ign'', ''test'', ''c1/bootstrap.ign''),
      (''/w/auth/kubeconfig'', ''test'', ''c1/kubeconfig-noingress''),
      (''/w/auth/kubeadmin-password'', ''test'', ''c1/kubeadmin-password'')]"
proof -
  let ?run = "upload_to_s3 example_upload_env ''http://s3'' ''test'' ''id'' ''secret'' ''/w''
            (Some ''c1'') empty_store"
  have r: "fst ?run = Inr ()"
    by code_simp
  have "?run = (Inr (), snd ?run)"
    using r by (cases ?run) simp
  from upload_to_s3_object_keys [OF this] show ?thesis
    by (simp add: walked_files_def expected_upload_def example_upload_env_def
          os_path_join_def py_format_def empty_store_def)
qed

theorem host_list_resolved_once_witness:
  "(\<exists>rest. trace (snd (update_bmh_files (example_env [''52:54:00:aa:bb:cc'']) ign (Some ''c1'')
              (Some ''http://inventory'') (example_world doc_one None)))
            = EvGetInventoryHosts ''http://inventory'' (Some ''c1'') # rest \<and>
          list_all (\<lambda>e. \<not> is_retrieval e) rest) \<and>
   (\<exists>rest. trace (snd (update_bmh_files (example_env [''52:54:00:aa:bb:cc'']) ign (Some ''c1'')
              (Some '''') (example_world doc_one None)))
            = EvLogInfo ''Using test data to get hosts list''
                # EvGetTestListHosts (Some ''c1'') # rest \<and>
          list_all (\<lambda>e. \<not> is_retrieval e) rest)"
  using host_list_resolved_once [of "example_env [''52:54:00:aa:bb:cc'']" ign "Some ''c1''"
          "Some ''http://inventory''" "example_world doc_one None"]
        host_list_resolved_once [of "example_env [''52:54:00:aa:bb:cc'']" ign "Some ''c1''"
          "Some ''''" "example_world doc_one None"]
  by (simp add: retrieval_events_def truthy_def example_world_def)

lemma two_manifests_one_host_load:
  "fst (load_and_update (example_env [''52:54:00:aa:bb:cc'']) ign (Some ''c1'') None
          (example_world doc_two None)) = Inl correlation_error"
  by code_simp

lemma one_manifest_one_host_written:
  "disk (snd (update_bmh_files (example_env [''52:54:00:aa:bb:cc'']) ign (Some ''c1'') None
          (example_world doc_one None))) ign
     = Some (json_dumps
         (boot_document [motd_entry, bmh_entry ''bmh-0.yaml'' ''52:54:00:aa:bb:cc'']))"
  by code_simp

lemma doc_one_changes: "json_dumps
         (boot_document [motd_entry, bmh_entry ''bmh-0.yaml'' ''52:54:00:aa:bb:cc''])
       \<noteq> json_dumps doc_one"
  by code_simp

theorem no_write_unless_all_updated_witness:
  "fst (update_bmh_files (example_env [''52:54:00:aa:bb:cc'']) ign (Some ''c1'') None
          (example_world doc_two None)) = Inl (wrap_exn correlation_error) \<and>
   disk (snd (update_bmh_files (example_env [''52:54:00:aa:bb:cc'']) ign (Some ''c1'') None
          (example_world doc_two None))) = disk (example_world doc_two None) \<and>
   (\<exists>evs entries.
      trace (snd (update_bmh_files (example_env [''52:54:00:aa:bb:cc'']) ign (Some ''c1'') None
          (example_world doc_one None))) = evs \<and>
      update_calls evs = filter (qualifies (example_env [''52:54:00:aa:bb:cc''])) entries)"
proof -
  let ?E = "example_env [''52:54:00:aa:bb:cc'']"
  let ?X = "update_bmh_files ?E ign (Some ''c1'') None (example_world doc_two None)"
  let ?Y = "update_bmh_files ?E ign (Some ''c1'') None (example_world doc_one None)"
  have l: "load_and_update ?E ign (Some ''c1'') None (example_world doc_two None)
        = (Inl correlation_error,
           snd (load_and_update ?E ign (Some ''c1'') None (example_world doc_two None)))"
    using two_manifests_one_host_load
    by (cases "load_and_update ?E ign (Some ''c1'') None (example_world doc_two None)") simp
  have x: "?X = (fst ?X, snd ?X)" by simp
  from no_write_unless_all_updated [OF x] l
  have first: "fst ?X = Inl (wrap_exn correlation_error) \<and>
      disk (snd ?X) = disk (example_world doc_two None)"
    by blast
  have "disk (snd ?Y) ign \<noteq> disk (example_world doc_one None) ign"
    using one_manifest_one_host_written doc_one_changes
    by (simp add: example_world_def)
  then have d: "disk (snd ?Y) \<noteq> disk (example_world doc_one None)"
    by auto
  have y: "?Y = (fst ?Y, snd ?Y)" by simp
  from no_write_unless_all_updated [OF y] d
  have "\<exists>evs entries. trace (snd ?Y) = trace (example_world doc_one None) @ evs \<and>
      update_calls evs = filter (qualifies ?E) entries"
    by blast
  then have "\<exists>evs entries. trace (snd ?Y) = evs \<and>
      update_calls evs = filter (qualifies ?E) entries"
    by (simp add: example_world_def)
  with first show ?thesis by blast
qed

lemma one_manifest_one_host_returns:
  "fst (update_bmh_files (example_env [''52:54:00:aa:bb:cc'']) ign (Some ''c1'') None
          (example_world doc_one None)) = Inr ()"
  by code_simp

lemma example_load_doc_one: "example_load (json_dumps doc_one) = Inr doc_one"
  by code_simp

lemma example_load_doc_two: "example_load (json_dumps doc_two) = Inr doc_two"
  by code_simp

lemma example_load_doc_plain: "example_load (json_dumps doc_plain) = Inr doc_plain"
  by code_simp

lemma storage_files_boot_document [simp]:
  "storage_files (boot_document entries) = Inr (JArr entries)"
  by (simp add: storage_files_def boot_document_def)

lemma qualifies_motd [simp]: "\<not> qualifies (example_env hosts) motd_entry"
  by (simp add: qualifies_def example_env_def example_is_bmh_def motd_entry_def)

lemma qualifies_bmh [simp]: "qualifies (example_env hosts) (bmh_entry name mac)"
  by (simp add: qualifies_def example_env_def example_is_bmh_def bmh_entry_def)

lemma spec_update_only_contents:
  "spec_update_bmh_cr_file mc fd hs = Inr (fd', hs') \<Longrightarrow>
     \<exists>cnt. fd' = py_setitem fd ''contents'' cnt"
  by (auto simp: spec_update_bmh_cr_file_def split: sum.split_asm list.split_asm)

lemma example_world_fields [simp]:
  "disk (example_world doc cap) ign = Some (json_dumps doc)"
  "read_only (example_world doc cap) p = False"
  "capacity (example_world doc cap) = cap"
  "trace (example_world doc cap) = []"
  by (simp_all add: example_world_def)

lemma example_env_fields [simp]:
  "json_load (example_env hosts) = example_load"
  "update_bmh_cr_file (example_env hosts) = spec_update_bmh_cr_file example_codec"
  "get_test_list_hosts (example_env hosts) c = Inr hosts"
  "get_inventory_hosts (example_env hosts) ep c = Inr hosts"
  by (simp_all add: example_env_def)

lemma resolve_hosts_example [simp]:
  "fst (resolve_hosts (example_env hosts) c ep w) = Inr hosts"
  by (simp add: resolve_hosts_def split: option.splits)

theorem only_manifest_contents_change_witness:
  "\<exists>data' cnt.
     disk (snd (update_bmh_files (example_env [''52:54:00:aa:bb:cc'']) ign (Some ''c1'') None
            (example_world doc_one None))) ign = Some (json_dumps data') \<and>
     py_getitem data' ''ignition'' = py_getitem doc_one ''ignition'' \<and>
     storage_files data' =
       Inr (JArr [motd_entry,
                  py_setitem (bmh_entry ''bmh-0.yaml'' ''00:00:00:00:00:00'') ''contents'' cnt])"
  using only_manifest_contents_change [OF one_manifest_one_host_returns]
proof (elim exE conjE)
  let ?E = "example_env [''52:54:00:aa:bb:cc'']"
  let ?Y = "update_bmh_files ?E ign (Some ''c1'') None (example_world doc_one None)"
  let ?bmh = "bmh_entry ''bmh-0.yaml'' ''00:00:00:00:00:00''"
  fix src data data'
  assume src: "disk (example_world doc_one None) ign = Some src"
    and data: "json_load ?E src = Inr data"
    and out: "disk (snd ?Y) ign = Some (json_dumps data')"
    and keys: "\<forall>k. k \<noteq> ''storage'' \<longrightarrow> py_getitem data' k = py_getitem data k"
    and frame: "\<forall>entries. storage_files data = Inr (JArr entries) \<longrightarrow>
        (\<exists>entries'. storage_files data' = Inr (JArr entries') \<and>
           length entries' = length entries \<and>
           (\<forall>i < length entries. \<not> qualifies ?E (entries ! i) \<longrightarrow>
              entries' ! i = entries ! i) \<and>
           (\<forall>i < length entries. qualifies ?E (entries ! i) \<longrightarrow>
              (\<exists>hs hs'. update_bmh_cr_file ?E (entries ! i) hs = Inr (entries' ! i, hs'))) \<and>
           ((\<forall>fd hs fd' hs'. update_bmh_cr_file ?E fd hs = Inr (fd', hs') \<longrightarrow>
                (\<exists>cnt. fd' = py_setitem fd ''contents'' cnt)) \<longrightarrow>
            (\<forall>i < length entries. qualifies ?E (entries ! i) \<longrightarrow>
               (\<exists>cnt. entries' ! i = py_setitem (entries ! i) ''contents'' cnt))))"
  from src data example_load_doc_one have d: "data = doc_one"
    by auto
  have sf: "storage_files data = Inr (JArr [motd_entry, ?bmh])"
    by (simp add: d doc_one_def)
  have mut: "\<forall>fd hs fd' hs'. update_bmh_cr_file ?E fd hs = Inr (fd', hs') \<longrightarrow>
                (\<exists>cnt. fd' = py_setitem fd ''contents'' cnt)"
    using spec_update_only_contents by simp blast
  from frame [rule_format, OF sf] obtain entries' where
    e1: "storage_files data' = Inr (JArr entries')"
    and e2: "length entries' = length [motd_entry, ?bmh]"
    and e3: "\<forall>i < length [motd_entry, ?bmh]. \<not> qualifies ?E ([motd_entry, ?bmh] ! i) \<longrightarrow>
              entries' ! i = [motd_entry, ?bmh] ! i"
    and e5: "(\<forall>fd hs fd' hs'. update_bmh_cr_file ?E fd hs = Inr (fd', hs') \<longrightarrow>
                (\<exists>cnt. fd' = py_setitem fd ''contents'' cnt)) \<longrightarrow>
            (\<forall>i < length [motd_entry, ?bmh]. qualifies ?E ([motd_entry, ?bmh] ! i) \<longrightarrow>
               (\<exists>cnt. entries' ! i = py_setitem ([motd_entry, ?bmh] ! i) ''contents'' cnt))"
    by (elim exE conjE)
  from e3 [rule_format, of 0] have a0: "entries' ! 0 = motd_entry"
    by simp
  from e5 mut have q: "\<forall>i < length [motd_entry, ?bmh]. qualifies ?E ([motd_entry, ?bmh] ! i) \<longrightarrow>
               (\<exists>cnt. entries' ! i = py_setitem ([motd_entry, ?bmh] ! i) ''contents'' cnt)"
    by (rule mp)
  from q [rule_format, of 1] obtain cnt where
    a1: "entries' ! 1 = py_setitem ?bmh ''contents'' cnt"
    by auto
  from e2 a0 a1 have "entries' = [motd_entry, py_setitem ?bmh ''contents'' cnt]"
    by (cases entries'; cases "tl entries'") auto
  with e1 out keys d show ?thesis
    by auto
qed

lemma well_formed_motd: "well_formed_entry (example_env hosts) example_codec motd_entry"
  by (auto simp: well_formed_entry_def qualifies_def example_env_def example_is_bmh_def
        motd_entry_def)

lemma well_formed_bmh:
  "well_formed_entry (example_env hosts) example_codec (bmh_entry name mac)"
  by (auto simp: well_formed_entry_def qualifies_def example_env_def example_is_bmh_def
        bmh_entry_def example_codec_def)

theorem more_manifests_than_hosts_fails_witness:
  "fst (update_bmh_files (example_env [''52:54:00:aa:bb:cc'']) ign (Some ''c1'') None
          (example_world doc_two None))
     = Inl (Exn ''Exception''
         ''Failed to update BMH CRs in bootstrap ignition, exception: fewer host records than BMH manifests'') \<and>
   disk (snd (update_bmh_files (example_env [''52:54:00:aa:bb:cc'']) ign (Some ''c1'') None
          (example_world doc_two None))) = disk (example_world doc_two None)"
proof -
  let ?E = "example_env [''52:54:00:aa:bb:cc'']"
  let ?b0 = "bmh_entry ''bmh-0.yaml'' ''00:00:00:00:00:00''"
  let ?b1 = "bmh_entry ''bmh-1.yaml'' ''00:00:00:00:00:00''"
  have h1: "update_bmh_cr_file ?E = spec_update_bmh_cr_file example_codec"
    by simp
  have h2: "fst (resolve_hosts ?E (Some ''c1'') None (example_world doc_two None))
      = Inr [''52:54:00:aa:bb:cc'']"
    by simp
  have h3: "disk (example_world doc_two None) ign = Some (json_dumps doc_two)"
    by simp
  have h4: "json_load ?E (json_dumps doc_two) = Inr doc_two"
    by (simp add: example_load_doc_two)
  have h5: "storage_files doc_two = Inr (JArr [?b0, motd_entry, ?b1])"
    by (simp add: doc_two_def)
  have h6: "length [''52:54:00:aa:bb:cc''] < length (filter (qualifies ?E) [?b0, motd_entry, ?b1])"
    by simp
  have wf: "\<forall>fd \<in> set [?b0, motd_entry, ?b1]. well_formed_entry ?E example_codec fd"
    by (simp add: well_formed_motd well_formed_bmh)
  from more_manifests_than_hosts_fails [OF h1 h2 h3 h4 h5 h6] wf show ?thesis
    by (simp add: wrap_exn_def correlation_error_def)
qed

lemma one_manifest_no_room_raises:
  "fst (update_bmh_files (example_env [''52:54:00:aa:bb:cc'']) ign (Some ''c1'') None
          (example_world doc_one (Some 0))) = Inl (wrap_exn no_space)"
  by code_simp

lemma one_manifest_no_room_file:
  "disk (snd (update_bmh_files (example_env [''52:54:00:aa:bb:cc'']) ign (Some ''c1'') None
          (example_world doc_one (Some 0)))) ign = Some []"
  by code_simp

lemma doc_one_text_nonempty: "json_dumps doc_one \<noteq> []"
  by (simp add: doc_one_def boot_document_def)

lemma doc_one_updated_text_nonempty:
  "json_dumps (boot_document [motd_entry, bmh_entry ''bmh-0.yaml'' ''52:54:00:aa:bb:cc'']) \<noteq> []"
  by (simp add: boot_document_def)

text \<open>
  C4 as stated does not hold. On a file system with no room left, the run on the
  document with one manifest raises, and the file, which held the text of the
  document, is left empty: neither the old text nor the new one.
\<close>

theorem persist_not_atomic_counterexample:
  "fst (update_bmh_files (example_env [''52:54:00:aa:bb:cc'']) ign (Some ''c1'') None
          (example_world doc_one (Some 0)))
     = Inl (Exn ''Exception''
         ''Failed to update BMH CRs in bootstrap ignition, exception: [Errno 28] No space left on device'') \<and>
   disk (example_world doc_one (Some 0)) ign = Some (json_dumps doc_one) \<and>
   disk (snd (update_bmh_files (example_env [''52:54:00:aa:bb:cc'']) ign (Some ''c1'') None
          (example_world doc_one (Some 0)))) ign = Some [] \<and>
   json_dumps doc_one \<noteq> [] \<and>
   json_dumps (boot_document [motd_entry, bmh_entry ''bmh-0.yaml'' ''52:54:00:aa:bb:cc'']) \<noteq> []"
  using one_manifest_no_room_raises one_manifest_no_room_file doc_one_text_nonempty
    doc_one_updated_text_nonempty
  by (simp add: wrap_exn_def no_space_def)

theorem persist_in_place_witness:
  "persist ign doc_one ((example_world doc_one None)\<lparr>read_only := \<lambda>p. True\<rparr>)
     = (Inl (permission_denied ign), (example_world doc_one None)\<lparr>read_only := \<lambda>p. True\<rparr>) \<and>
   fst (persist ign doc_plain (example_world doc_one (Some 1))) = Inl no_space \<and>
   disk (snd (persist ign doc_plain (example_world doc_one (Some 1)))) ign = Some ''{'' \<and>
   fst (persist ign doc_plain (example_world doc_one None)) = Inr () \<and>
   disk (snd (persist ign doc_plain (example_world doc_one None))) ign
     = Some (json_dumps doc_plain) \<and>
   disk (snd (persist ign doc_plain (example_world doc_one None))) ''/w/auth/kubeconfig''
     = disk (example_world doc_one None) ''/w/auth/kubeconfig''"
proof -
  let ?ro = "(example_world doc_one None)\<lparr>read_only := \<lambda>p. True\<rparr>"
  let ?w1 = "example_world doc_one (Some 1)"
  let ?w = "example_world doc_one None"
  have t1: "disk (snd (persist ign doc_plain ?w1)) ign = Some ''{''"
    by (simp add: persist_def Let_def emit_def doc_plain_def boot_document_def)
  have ne: "''{'' \<noteq> json_dumps doc_plain"
    by (simp add: doc_plain_def boot_document_def)
  have t2: "fst (persist ign doc_plain ?w) = Inr ()"
    by (simp add: persist_def Let_def emit_def)
  from persist_in_place [of ?ro ign doc_one]
  have a: "persist ign doc_one ?ro = (Inl (permission_denied ign), ?ro)"
    by simp
  from persist_in_place [of ?w1 ign doc_plain] t1 ne
  have b: "fst (persist ign doc_plain ?w1) = Inl no_space"
    by auto
  from persist_in_place [of ?w ign doc_plain] t2
  have c: "disk (snd (persist ign doc_plain ?w)) ign = Some (json_dumps doc_plain)"
    by auto
  from persist_in_place [of ?w ign doc_plain]
  have d: "disk (snd (persist ign doc_plain ?w)) ''/w/auth/kubeconfig''
      = disk ?w ''/w/auth/kubeconfig''"
    by (simp add: ign_def)
  from a b t1 t2 c d show ?thesis
    by simp
qed

lemma is_float_token_zero: "is_float_token ''0.0''"
  by code_simp

lemma float_repr_ok_example: "float_repr_ok example_repr"
  unfolding float_repr_ok_def
proof
  fix t
  show "float_text example_repr (example_repr t)"
  proof (cases "is_float_token t")
    case True
    then show ?thesis by (simp add: float_text_def example_repr_def)
  next
    case False
    with is_float_token_zero show ?thesis by (simp add: float_text_def example_repr_def)
  qed
qed

lemma compact_plain_decodes: "json_loads example_repr compact_plain = Some doc_plain"
  by code_simp

lemma compact_plain_differs: "json_dumps doc_plain \<noteq> compact_plain"
  by code_simp

lemma decoding_env_fields [simp]:
  "json_load (decoding_env hosts) = example_decoder"
  "update_bmh_cr_file (decoding_env hosts) = spec_update_bmh_cr_file example_codec"
  "is_bmh_cr_file (decoding_env hosts) = example_is_bmh"
  "get_test_list_hosts (decoding_env hosts) c = Inr hosts"
  "get_inventory_hosts (decoding_env hosts) ep c = Inr hosts"
  by (simp_all add: decoding_env_def example_env_def)

lemma example_decoder_char:
  "(example_decoder s = Inr d) = (json_loads example_repr s = Some d)"
  by (simp add: example_decoder_def split: option.split)

lemma resolve_hosts_decoding [simp]:
  "fst (resolve_hosts (decoding_env hosts) c ep w) = Inr hosts"
  by (simp add: resolve_hosts_def split: option.split)

lemma qualifies_decoding_motd [simp]: "\<not> qualifies (decoding_env hosts) motd_entry"
  by (simp add: qualifies_def example_is_bmh_def motd_entry_def)

lemma qualifies_decoding_bmh [simp]: "qualifies (decoding_env hosts) (bmh_entry name mac)"
  by (simp add: qualifies_def example_is_bmh_def bmh_entry_def)

lemma text_world_fields [simp]:
  "disk (text_world src) ign = Some src"
  "read_only (text_world src) p = False"
  "capacity (text_world src) = None"
  "trace (text_world src) = []"
  by (simp_all add: text_world_def)

lemma wf_doc_plain: "wf_json example_repr doc_plain"
  by (simp add: doc_plain_def boot_document_def motd_entry_def)

lemma wf_doc_two: "wf_json example_repr doc_two"
  by (simp add: doc_two_def boot_document_def motd_entry_def bmh_entry_def)

theorem no_manifest_round_trip_witness:
  "fst (update_bmh_files (decoding_env [''52:54:00:aa:bb:cc'']) ign (Some ''c1'') None
          (text_world compact_plain)) = Inr () \<and>
   disk (snd (update_bmh_files (decoding_env [''52:54:00:aa:bb:cc'']) ign (Some ''c1'') None
          (text_world compact_plain))) ign = Some (json_dumps doc_plain) \<and>
   json_dumps doc_plain \<noteq> compact_plain \<and>
   example_decoder (json_dumps doc_plain) = Inr doc_plain \<and>
   example_decoder compact_plain = Inr doc_plain \<and>
   disk (snd (update_bmh_files (decoding_env [''52:54:00:aa:bb:cc'']) ign (Some ''c1'') None
          (text_world (json_dumps doc_plain)))) ign = Some (json_dumps doc_plain) \<and>
   disk (snd (update_bmh_files (decoding_env [''52:54:00:aa:bb:cc'']) ign (Some ''c1'') None
          ((text_world compact_plain)\<lparr>read_only := \<lambda>p. True\<rparr>)))
     = disk (text_world compact_plain)"
proof -
  let ?E = "decoding_env [''52:54:00:aa:bb:cc'']"
  let ?W = "text_world compact_plain"
  let ?C = "text_world (json_dumps doc_plain)"
  let ?R = "(text_world compact_plain)\<lparr>read_only := \<lambda>p. True\<rparr>"
  have dec: "\<forall>s d. (json_load ?E s = Inr d) = (json_loads example_repr s = Some d)"
    by (simp add: example_decoder_char)
  note fl = float_repr_ok_example
  have h1: "disk ?W ign = Some compact_plain"
    by simp
  have r1: "disk ?R ign = Some compact_plain"
    by simp
  have c1: "disk ?C ign = Some (json_dumps doc_plain)"
    by simp
  have h2: "json_load ?E compact_plain = Inr doc_plain"
    by (simp add: example_decoder_char compact_plain_decodes)
  have c2: "json_load ?E (json_dumps doc_plain) = Inr doc_plain"
    by (simp add: example_decoder_char json_loads_dumps [OF wf_doc_plain])
  have h3: "storage_files doc_plain = Inr (JArr [motd_entry])"
    by (simp add: doc_plain_def storage_files_def boot_document_def)
  have h4: "py_iter (JArr [motd_entry]) = Inr [motd_entry]"
    by simp
  have h5: "\<forall>fd \<in> set [motd_entry]. \<not> qualifies ?E fd"
    by simp
  have rej: "\<forall>fd \<in> set [motd_entry]. \<exists>p. py_getitem fd ''path'' = Inr p \<and>
              is_bmh_cr_file ?E p = Inr False"
    by (simp add: motd_entry_def example_is_bmh_def)
  have res: "\<And>w. \<exists>hosts. fst (resolve_hosts ?E (Some ''c1'') None w) = Inr hosts"
    by simp
  have canon: "\<exists>d. wf_json example_repr d \<and> json_dumps doc_plain = json_dumps d"
    using wf_doc_plain by blast
  from no_manifest_round_trip [OF dec fl r1 h2 h3 h4 h5, of "Some ''c1''" None]
  have ro: "disk (snd (update_bmh_files ?E ign (Some ''c1'') None ?R)) = disk ?W"
    by (simp add: text_world_def)
  from no_manifest_round_trip [OF dec fl c1 c2 h3 h4 h5, of "Some ''c1''" None] rej res canon
  have cn: "disk (snd (update_bmh_files ?E ign (Some ''c1'') None ?C)) ign
              = Some (json_dumps doc_plain)"
    by simp
  from no_manifest_round_trip [OF dec fl h1 h2 h3 h4 h5, of "Some ''c1''" None] rej res
  have "fst (update_bmh_files ?E ign (Some ''c1'') None ?W) = Inr () \<and>
        disk (snd (update_bmh_files ?E ign (Some ''c1'') None ?W)) ign = Some (json_dumps doc_plain) \<and>
        json_load ?E (json_dumps doc_plain) = Inr doc_plain"
    by simp
  with compact_plain_differs h2 cn ro show ?thesis
    by simp
qed

lemma well_formed_decoding_motd:
  "well_formed_entry (decoding_env hosts) example_codec motd_entry"
  by (auto simp: well_formed_entry_def motd_entry_def example_is_bmh_def qualifies_def)

lemma well_formed_decoding_bmh:
  "well_formed_entry (decoding_env hosts) example_codec (bmh_entry name mac)"
  by (auto simp: well_formed_entry_def bmh_entry_def example_is_bmh_def qualifies_def
        example_codec_def)

lemma injected_bmh:
  "injected example_codec (bmh_entry name mac) h = Some (bmh_entry name h)"
  by (simp add: injected_def example_codec_def bmh_entry_def)

lemma store_entries_boot_document:
  "store_entries (boot_document entries) (JArr entries) entries' = boot_document entries'"
  by (simp add: store_entries_def boot_document_def)

lemma two_hosts_text_changes:
  "json_dumps (boot_document [bmh_entry ''bmh-0.yaml'' ''52:54:00:aa:bb:cc'', motd_entry,
                              bmh_entry ''bmh-1.yaml'' ''52:54:00:dd:ee:ff''])
     \<noteq> json_dumps doc_two"
  by code_simp

theorem same_inputs_same_document_witness:
  "fst (update_bmh_files (decoding_env [''52:54:00:aa:bb:cc'', ''52:54:00:dd:ee:ff'']) ign
          (Some ''c1'') (Some ''http://inventory'') (example_world doc_two None)) = Inr () \<and>
   fst (update_bmh_files (decoding_env [''52:54:00:aa:bb:cc'', ''52:54:00:dd:ee:ff'']) ign
          (Some ''c1'') None
          ((example_world doc_two None)\<lparr>trace := [EvLogInfo ''an earlier run'']\<rparr>)) = Inr () \<and>
   disk (snd (update_bmh_files (decoding_env [''52:54:00:aa:bb:cc'', ''52:54:00:dd:ee:ff'']) ign
          (Some ''c1'') (Some ''http://inventory'') (example_world doc_two None))) ign
     = Some (json_dumps (boot_document [bmh_entry ''bmh-0.yaml'' ''52:54:00:aa:bb:cc'', motd_entry,
                                        bmh_entry ''bmh-1.yaml'' ''52:54:00:dd:ee:ff''])) \<and>
   disk (snd (update_bmh_files (decoding_env [''52:54:00:aa:bb:cc'', ''52:54:00:dd:ee:ff'']) ign
          (Some ''c1'') None
          ((example_world doc_two None)\<lparr>trace := [EvLogInfo ''an earlier run'']\<rparr>))) ign
     = Some (json_dumps (boot_document [bmh_entry ''bmh-0.yaml'' ''52:54:00:aa:bb:cc'', motd_entry,
                                        bmh_entry ''bmh-1.yaml'' ''52:54:00:dd:ee:ff''])) \<and>
   json_dumps (boot_document [bmh_entry ''bmh-0.yaml'' ''52:54:00:aa:bb:cc'', motd_entry,
                              bmh_entry ''bmh-1.yaml'' ''52:54:00:dd:ee:ff''])
     \<noteq> json_dumps doc_two"
proof -
  let ?hosts = "[''52:54:00:aa:bb:cc'', ''52:54:00:dd:ee:ff'']"
  let ?E = "decoding_env ?hosts"
  let ?W1 = "example_world doc_two None"
  let ?W2 = "(example_world doc_two None)\<lparr>trace := [EvLogInfo ''an earlier run'']\<rparr>"
  let ?b0 = "bmh_entry ''bmh-0.yaml'' ''00:00:00:00:00:00''"
  let ?b1 = "bmh_entry ''bmh-1.yaml'' ''00:00:00:00:00:00''"
  let ?entries = "[?b0, motd_entry, ?b1]"
  let ?R1 = "update_bmh_files ?E ign (Some ''c1'') (Some ''http://inventory'') ?W1"
  let ?R2 = "update_bmh_files ?E ign (Some ''c1'') None ?W2"
  have upd: "update_bmh_cr_file ?E = spec_update_bmh_cr_file example_codec"
    by simp
  have d1: "disk ?W1 ign = Some (json_dumps doc_two)"
    by simp
  have d2: "disk ?W2 ign = Some (json_dumps doc_two)"
    by simp
  have ld: "json_load ?E (json_dumps doc_two) = Inr doc_two"
    by (simp add: example_decoder_char json_loads_dumps [OF wf_doc_two])
  have sf: "storage_files doc_two = Inr (JArr ?entries)"
    by (simp add: doc_two_def storage_files_def boot_document_def)
  have it: "py_iter (JArr ?entries) = Inr ?entries"
    by simp
  have r1: "fst (resolve_hosts ?E (Some ''c1'') (Some ''http://inventory'') ?W1) = Inr ?hosts"
    by simp
  have r2: "fst (resolve_hosts ?E (Some ''c1'') None ?W2) = Inr ?hosts"
    by simp
  note inst = same_inputs_same_document [OF upd d1 d2 ld sf it r1 r2]
  have cond: "(\<forall>fd \<in> set ?entries. well_formed_entry ?E example_codec fd) \<and>
          length (filter (qualifies ?E) ?entries) \<le> length ?hosts \<and>
          \<not> read_only ?W1 ign \<and> \<not> read_only ?W2 ign \<and>
          capacity ?W1 = None \<and> capacity ?W2 = None"
    by (simp add: well_formed_decoding_motd well_formed_decoding_bmh)
  have ok: "fst ?R1 = Inr () \<and> fst ?R2 = Inr ()"
    by (rule inst [THEN conjunct2, THEN conjunct2, THEN mp, OF cond])
  from inst [THEN conjunct2, THEN conjunct1, THEN mp, OF ok] obtain entries' where
    o1: "disk (snd ?R1) ign = Some (json_dumps (store_entries doc_two (JArr ?entries) entries'))"
    and o2: "disk (snd ?R2) ign = Some (json_dumps (store_entries doc_two (JArr ?entries) entries'))"
    and len: "length entries' = length ?entries"
    and nth: "\<forall>i < length ?entries.
                  if qualifies ?E (?entries ! i)
                  then manifest_ordinal ?E ?entries i < length ?hosts \<and>
                       injected example_codec (?entries ! i) (?hosts ! manifest_ordinal ?E ?entries i)
                         = Some (entries' ! i)
                  else entries' ! i = ?entries ! i"
    by blast
  from nth [rule_format, of 0] have e0: "entries' ! 0 = bmh_entry ''bmh-0.yaml'' ''52:54:00:aa:bb:cc''"
    by (simp add: manifest_ordinal_def injected_bmh)
  from nth [rule_format, of 1] have e1: "entries' ! 1 = motd_entry"
    by simp
  from nth [rule_format, of 2] have e2: "entries' ! 2 = bmh_entry ''bmh-1.yaml'' ''52:54:00:dd:ee:ff''"
    by (simp add: manifest_ordinal_def injected_bmh)
  from len obtain a b c where abc: "entries' = [a, b, c]"
    by (cases entries'; cases "tl entries'"; cases "tl (tl entries')") auto
  with e0 e1 e2 have "entries' = [bmh_entry ''bmh-0.yaml'' ''52:54:00:aa:bb:cc'', motd_entry,
                                        bmh_entry ''bmh-1.yaml'' ''52:54:00:dd:ee:ff'']"
    by simp
  then have "store_entries doc_two (JArr ?entries) entries'
      = boot_document [bmh_entry ''bmh-0.yaml'' ''52:54:00:aa:bb:cc'', motd_entry,
                                        bmh_entry ''bmh-1.yaml'' ''52:54:00:dd:ee:ff'']"
    using store_entries_boot_document [of ?entries entries'] by (simp add: doc_two_def)
  with o1 o2 ok two_hosts_text_changes show ?thesis
    by simp
qed

lemma one_manifest_loaded:
  "fst (load_and_update (example_env [''52:54:00:aa:bb:cc'']) ign (Some ''c1'') None
          (example_world doc_one (Some 0)))
     = Inr (boot_document [motd_entry, bmh_entry ''bmh-0.yaml'' ''52:54:00:aa:bb:cc''])"
  by code_simp

theorem failures_wrapped_once_witness:
  "fst (update_bmh_files
          ((example_env [])\<lparr>get_test_list_hosts :=
              \<lambda>c. Inl (Exn ''ConnectionError'' ''inventory unreachable'')\<rparr>)
          ign (Some ''c1'') None (example_world doc_one None))
     = Inl (Exn ''Exception''
         ''Failed to update BMH CRs in bootstrap ignition, exception: inventory unreachable'') \<and>
   fst (update_bmh_files (example_env [''52:54:00:aa:bb:cc'']) ign (Some ''c1'') None
          ((example_world doc_one None)\<lparr>disk := \<lambda>p. Some ''not json''\<rparr>))
     = Inl (Exn ''Exception''
         ''Failed to update BMH CRs in bootstrap ignition, exception: Expecting value: line 1 column 1 (char 0)'') \<and>
   fst (update_bmh_files (example_env [''52:54:00:aa:bb:cc'']) ign (Some ''c1'') None
          (example_world doc_one (Some 0)))
     = Inl (Exn ''Exception''
         ''Failed to update BMH CRs in bootstrap ignition, exception: [Errno 28] No space left on device'') \<and>
   fst (update_bmh_files (example_env [''52:54:00:aa:bb:cc'']) ign (Some ''c1'') None
          (example_world doc_two None))
     = Inl (Exn ''Exception''
         ''Failed to update BMH CRs in bootstrap ignition, exception: fewer host records than BMH manifests'')"
proof -
  let ?T = "example_world doc_two None"
  let ?F = "(example_env [])\<lparr>get_test_list_hosts :=
              \<lambda>c. Inl (Exn ''ConnectionError'' ''inventory unreachable'')\<rparr>"
  let ?E = "example_env [''52:54:00:aa:bb:cc'']"
  let ?W = "example_world doc_one None"
  let ?B = "(example_world doc_one None)\<lparr>disk := \<lambda>p. Some ''not json''\<rparr>"
  let ?N = "example_world doc_one (Some 0)"
  let ?D = "boot_document [motd_entry, bmh_entry ''bmh-0.yaml'' ''52:54:00:aa:bb:cc'']"
  have r: "fst (resolve_hosts ?F (Some ''c1'') None ?W)
      = Inl (Exn ''ConnectionError'' ''inventory unreachable'')"
    by (simp add: resolve_hosts_def)
  from failures_wrapped_once [of ?F ign "Some ''c1''" None ?W] r
  have a: "fst (update_bmh_files ?F ign (Some ''c1'') None ?W)
      = Inl (wrap_exn (Exn ''ConnectionError'' ''inventory unreachable''))"
    by blast
  have bad: "json_load ?E ''not json''
      = Inl (Exn ''JSONDecodeError'' ''Expecting value: line 1 column 1 (char 0)'')"
    by code_simp
  have "fst (resolve_hosts ?E (Some ''c1'') None ?B) = Inr [''52:54:00:aa:bb:cc''] \<and>
      disk ?B ign = Some ''not json'' \<and>
      json_load ?E ''not json''
        = Inl (Exn ''JSONDecodeError'' ''Expecting value: line 1 column 1 (char 0)'')"
    using bad by simp
  with failures_wrapped_once [of ?E ign "Some ''c1''" None ?B]
  have b: "fst (update_bmh_files ?E ign (Some ''c1'') None ?B)
      = Inl (wrap_exn (Exn ''JSONDecodeError'' ''Expecting value: line 1 column 1 (char 0)''))"
    by blast
  have l: "load_and_update ?E ign (Some ''c1'') None ?N
      = (Inr ?D, snd (load_and_update ?E ign (Some ''c1'') None ?N))"
    using one_manifest_loaded
    by (cases "load_and_update ?E ign (Some ''c1'') None ?N") simp
  have cap: "capacity (snd (load_and_update ?E ign (Some ''c1'') None ?N)) = Some 0"
    "\<not> read_only (snd (load_and_update ?E ign (Some ''c1'') None ?N)) ign"
    by (simp_all add: load_world_fields)
  have p: "fst (persist ign ?D (snd (load_and_update ?E ign (Some ''c1'') None ?N)))
      = Inl no_space"
    using cap by (simp add: persist_def Let_def boot_document_def)
  from failures_wrapped_once [of ?E ign "Some ''c1''" None ?N] l p
  have c: "fst (update_bmh_files ?E ign (Some ''c1'') None ?N) = Inl (wrap_exn no_space)"
    by blast
  have u: "fst (update_entries ?E
             [bmh_entry ''bmh-0.yaml'' ''00:00:00:00:00:00'', motd_entry,
              bmh_entry ''bmh-1.yaml'' ''00:00:00:00:00:00'']
             [''52:54:00:aa:bb:cc''] ?T) = Inl correlation_error"
    by code_simp
  have sf: "storage_files doc_two
        = Inr (JArr [bmh_entry ''bmh-0.yaml'' ''00:00:00:00:00:00'', motd_entry,
                     bmh_entry ''bmh-1.yaml'' ''00:00:00:00:00:00''])"
    by (simp add: doc_two_def)
  have "fst (resolve_hosts ?E (Some ''c1'') None ?T) = Inr [''52:54:00:aa:bb:cc''] \<and>
      disk ?T ign = Some (json_dumps doc_two) \<and>
      json_load ?E (json_dumps doc_two) = Inr doc_two \<and>
      storage_files doc_two
        = Inr (JArr [bmh_entry ''bmh-0.yaml'' ''00:00:00:00:00:00'', motd_entry,
                     bmh_entry ''bmh-1.yaml'' ''00:00:00:00:00:00'']) \<and>
      py_iter (JArr [bmh_entry ''bmh-0.yaml'' ''00:00:00:00:00:00'', motd_entry,
                     bmh_entry ''bmh-1.yaml'' ''00:00:00:00:00:00''])
        = Inr [bmh_entry ''bmh-0.yaml'' ''00:00:00:00:00:00'', motd_entry,
               bmh_entry ''bmh-1.yaml'' ''00:00:00:00:00:00''] \<and>
      fst (update_entries ?E
             [bmh_entry ''bmh-0.yaml'' ''00:00:00:00:00:00'', motd_entry,
              bmh_entry ''bmh-1.yaml'' ''00:00:00:00:00:00'']
             [''52:54:00:aa:bb:cc''] ?T) = Inl correlation_error"
    using u sf by (simp add: example_load_doc_two)
  with failures_wrapped_once [of ?E ign "Some ''c1''" None ?T]
  have d: "fst (update_bmh_files ?E ign (Some ''c1'') None ?T)
      = Inl (wrap_exn correlation_error)"
    by blast
  from a b c d show ?thesis
    by (simp add: wrap_exn_def no_space_def correlation_error_def)
qed

theorem missing_credentials_do_not_abort_witness:
  "fst (upload_to_aws example_upload_env () ''/w/auth/kubeconfig'' ''test''
          ''c1/kubeconfig-noingress'' empty_store) = Inr False \<and>
   fst (upload_to_s3 example_upload_env ''http://s3'' ''test'' ''id'' ''secret'' ''/w''
          (Some ''c1'') empty_store) = Inr () \<and>
   upload_calls (outputs (snd (upload_to_s3 example_upload_env ''http://s3'' ''test'' ''id''
       ''secret'' ''/w'' (Some ''c1'') empty_store))) =
     [(''/w/bootstrap.ign'', ''test'', ''c1/bootstrap.ign''),
      (''/w/auth/kubeconfig'', ''test'', ''c1/kubeconfig-noingress''),
      (''/w/auth/kubeadmin-password'', ''test'', ''c1/kubeadmin-password'')]"
proof -
  have nc: "fst (upload_file example_upload_env () ''/w/auth/kubeconfig'' ''test''
          ''c1/kubeconfig-noingress'' (store empty_store)) = NoCredentials"
    by (simp add: example_upload_env_def)
  have cl: "get_s3_client example_upload_env ''http://s3'' ''id'' ''secret'' = Inr ()"
    by (simp add: get_s3_client_def example_upload_env_def)
  have nr: "\<forall>l b k s e. fst (upload_file example_upload_env () l b k s) \<noteq> UploadRaises e"
    by (simp add: example_upload_env_def)
  from missing_credentials_do_not_abort [of example_upload_env "()" "''/w/auth/kubeconfig''"
      "''test''" "''c1/kubeconfig-noingress''" empty_store "''http://s3''" "''id''" "''secret''"
      "''test''" "''/w''" "Some ''c1''"] nc cl nr
  show ?thesis
    by (simp add: walked_files_def expected_upload_def example_upload_env_def
          os_path_join_def py_format_def empty_store_def)
qed

end
